theory Spec2Isabelle
  imports Complex_Main "HOL-Library.Word"
begin

unbundle bit_operations_syntax

section \<open>JavaScript numbers\<close>

text \<open>
  Coordinates, tolerances and audio samples are JavaScript numbers. Finite values are
  modelled by \<^typ>\<open>real\<close>, and sums, products, quotients and square roots of finite
  values by those of the reals, without the rounding of double precision. Where the
  source can produce or receive a non-finite value (a division by a zero scale, an element
  of a \<open>Float32Array\<close>) the value is a \<open>jsnum\<close>, with the IEEE results of the operations
  the source applies written out.
\<close>

datatype jsnum = Fin real | PosInf | NegInf | NaN

text \<open>\<open>a / b\<close> on finite operands; a zero divisor is the positive zero.\<close>

definition jsDiv :: "real \<Rightarrow> real \<Rightarrow> jsnum" where
  "jsDiv a b =
     (if b = 0 then (if a = 0 then NaN else if 0 < a then PosInf else NegInf)
      else Fin (a / b))"

text \<open>\<open>a < b\<close> and \<open>a >= b\<close> with a finite right operand; both are false on \<open>NaN\<close>.\<close>

fun jsLt :: "jsnum \<Rightarrow> real \<Rightarrow> bool" where
  "jsLt (Fin a) b = (a < b)"
| "jsLt NegInf b = True"
| "jsLt PosInf b = False"
| "jsLt NaN b = False"

fun jsGe :: "jsnum \<Rightarrow> real \<Rightarrow> bool" where
  "jsGe (Fin a) b = (a \<ge> b)"
| "jsGe PosInf b = True"
| "jsGe NegInf b = False"
| "jsGe NaN b = False"

text \<open>\<open>Math.round\<close> on a finite number: the nearest integer, halves towards plus infinity.\<close>

definition Math_round :: "real \<Rightarrow> int" where
  "Math_round v = \<lfloor>v + 1 / 2\<rfloor>"

section \<open>Geometry (utils/geometry.ts)\<close>

text \<open>
  \<open>SelectionRect\<close> is \<open>{x, y, width, height}\<close>; the fields carry the prefix \<open>rect_\<close>
  here, and those of a point the prefix \<open>pt_\<close>, so that \<open>x\<close> and \<open>y\<close> stay free for
  variables.
\<close>

record SelectionRect =
  rect_x :: real
  rect_y :: real
  rect_width :: real
  rect_height :: real

record Point =
  pt_x :: real
  pt_y :: real

datatype ResizeHandle =
  TopLeft | Top | TopRight | Right | BottomRight | Bottom | BottomLeft | Left

definition HANDLE_HIT_SIZE :: real where
  "HANDLE_HIT_SIZE = 14"

definition normalizeRect :: "SelectionRect \<Rightarrow> SelectionRect" where
  "normalizeRect rect =
     \<lparr> rect_x = (if rect_width rect < 0 then rect_x rect + rect_width rect else rect_x rect),
       rect_y = (if rect_height rect < 0 then rect_y rect + rect_height rect else rect_y rect),
       rect_width = \<bar>rect_width rect\<bar>,
       rect_height = \<bar>rect_height rect\<bar> \<rparr>"

text \<open>
  The object literal returned by \<open>getHandlePositions\<close> is an association list in the order
  of its properties, which is the order \<open>Object.entries\<close> enumerates them in.
\<close>

definition getHandlePositions :: "SelectionRect \<Rightarrow> (ResizeHandle \<times> Point) list" where
  "getHandlePositions rect =
     (let n = normalizeRect rect in
      [ (TopLeft, \<lparr> pt_x = rect_x n, pt_y = rect_y n \<rparr>),
        (Top, \<lparr> pt_x = rect_x n + rect_width n / 2, pt_y = rect_y n \<rparr>),
        (TopRight, \<lparr> pt_x = rect_x n + rect_width n, pt_y = rect_y n \<rparr>),
        (Right, \<lparr> pt_x = rect_x n + rect_width n, pt_y = rect_y n + rect_height n / 2 \<rparr>),
        (BottomRight, \<lparr> pt_x = rect_x n + rect_width n, pt_y = rect_y n + rect_height n \<rparr>),
        (Bottom, \<lparr> pt_x = rect_x n + rect_width n / 2, pt_y = rect_y n + rect_height n \<rparr>),
        (BottomLeft, \<lparr> pt_x = rect_x n, pt_y = rect_y n + rect_height n \<rparr>),
        (Left, \<lparr> pt_x = rect_x n, pt_y = rect_y n + rect_height n / 2 \<rparr>) ])"

text \<open>The \<open>for ... of entries\<close> loop of \<open>hitTestHandle\<close>, returning at the first hit.\<close>

fun hitTestEntries :: "(ResizeHandle \<times> Point) list \<Rightarrow> real \<Rightarrow> real \<Rightarrow> ResizeHandle option" where
  "hitTestEntries [] px py = None"
| "hitTestEntries ((handle, pos) # entries) px py =
     (if \<bar>px - pt_x pos\<bar> \<le> HANDLE_HIT_SIZE \<and> \<bar>py - pt_y pos\<bar> \<le> HANDLE_HIT_SIZE
      then Some handle
      else hitTestEntries entries px py)"

definition hitTestHandle :: "SelectionRect \<Rightarrow> real \<Rightarrow> real \<Rightarrow> ResizeHandle option" where
  "hitTestHandle rect px py = hitTestEntries (getHandlePositions rect) px py"

definition hitTestSelection :: "SelectionRect \<Rightarrow> real \<Rightarrow> real \<Rightarrow> bool" where
  "hitTestSelection rect px py =
     (let n = normalizeRect rect in
      px \<ge> rect_x n \<and> px \<le> rect_x n + rect_width n \<and>
      py \<ge> rect_y n \<and> py \<le> rect_y n + rect_height n)"

fun getResizeCursor :: "ResizeHandle \<Rightarrow> string" where
  "getResizeCursor TopLeft = ''nwse-resize''"
| "getResizeCursor TopRight = ''nesw-resize''"
| "getResizeCursor BottomLeft = ''nesw-resize''"
| "getResizeCursor BottomRight = ''nwse-resize''"
| "getResizeCursor Top = ''ns-resize''"
| "getResizeCursor Bottom = ''ns-resize''"
| "getResizeCursor Left = ''ew-resize''"
| "getResizeCursor Right = ''ew-resize''"

definition applyResize :: "SelectionRect \<Rightarrow> ResizeHandle \<Rightarrow> real \<Rightarrow> real \<Rightarrow> SelectionRect" where
  "applyResize original handle dx dy =
     (let n = normalizeRect original;
          x = rect_x n; y = rect_y n; width = rect_width n; height = rect_height n
      in case handle of
           TopLeft \<Rightarrow>
             \<lparr> rect_x = x + dx, rect_y = y + dy, rect_width = width - dx, rect_height = height - dy \<rparr>
         | Top \<Rightarrow>
             \<lparr> rect_x = x, rect_y = y + dy, rect_width = width, rect_height = height - dy \<rparr>
         | TopRight \<Rightarrow>
             \<lparr> rect_x = x, rect_y = y + dy, rect_width = width + dx, rect_height = height - dy \<rparr>
         | Right \<Rightarrow>
             \<lparr> rect_x = x, rect_y = y, rect_width = width + dx, rect_height = height \<rparr>
         | BottomRight \<Rightarrow>
             \<lparr> rect_x = x, rect_y = y, rect_width = width + dx, rect_height = height + dy \<rparr>
         | Bottom \<Rightarrow>
             \<lparr> rect_x = x, rect_y = y, rect_width = width, rect_height = height + dy \<rparr>
         | BottomLeft \<Rightarrow>
             \<lparr> rect_x = x + dx, rect_y = y, rect_width = width - dx, rect_height = height + dy \<rparr>
         | Left \<Rightarrow>
             \<lparr> rect_x = x + dx, rect_y = y, rect_width = width - dx, rect_height = height \<rparr>)"

text \<open>
  The reading of "within a hit radius of 14 display pixels" as a Euclidean distance, for
  comparison with the per-axis test of \<open>hitTestHandle\<close>.
\<close>

definition spec_within_hit_radius :: "Point \<Rightarrow> real \<Rightarrow> real \<Rightarrow> bool" where
  "spec_within_hit_radius pos px py = (sqrt ((px - pt_x pos)\<^sup>2 + (py - pt_y pos)\<^sup>2) \<le> 14)"

definition spec_hitTestHandle :: "SelectionRect \<Rightarrow> real \<Rightarrow> real \<Rightarrow> ResizeHandle option" where
  "spec_hitTestHandle rect px py =
     find (\<lambda>h. case map_of (getHandlePositions rect) h of
                  Some pos \<Rightarrow> spec_within_hit_radius pos px py
                | None \<Rightarrow> False)
       [TopLeft, Top, TopRight, Right, BottomRight, Bottom, BottomLeft, Left]"

section \<open>Audio (utils/audio.ts)\<close>

type_synonym byte = "8 word"

datatype error = RangeError

text \<open>
  An element of the \<open>Float32Array\<close> is a \<open>jsnum\<close>. The operations below are the ones
  \<open>encodeWAV\<close> applies to it: \<open>Math.min(1, s)\<close>, \<open>Math.max(-1, s)\<close> and a product with
  a constant. On a finite single-precision sample the products with \<open>0x8000\<close> and
  \<open>0x7FFF\<close> are exact in double precision, so the real product is the value computed.
\<close>

fun Math_min_1 :: "jsnum \<Rightarrow> jsnum" where
  "Math_min_1 (Fin a) = Fin (min 1 a)"
| "Math_min_1 PosInf = Fin 1"
| "Math_min_1 NegInf = NegInf"
| "Math_min_1 NaN = NaN"

fun Math_max_neg1 :: "jsnum \<Rightarrow> jsnum" where
  "Math_max_neg1 (Fin a) = Fin (max (- 1) a)"
| "Math_max_neg1 PosInf = PosInf"
| "Math_max_neg1 NegInf = Fin (- 1)"
| "Math_max_neg1 NaN = NaN"

fun jsTimes :: "jsnum \<Rightarrow> real \<Rightarrow> jsnum" where
  "jsTimes (Fin a) c = Fin (a * c)"
| "jsTimes PosInf c = (if c = 0 then NaN else if 0 < c then PosInf else NegInf)"
| "jsTimes NegInf c = (if c = 0 then NaN else if 0 < c then NegInf else PosInf)"
| "jsTimes NaN c = NaN"

text \<open>
  The conversion \<open>DataView.setInt16\<close> applies to its argument (ECMAScript \<open>ToInt16\<close>):
  non-finite values become 0, a finite value is truncated towards zero and taken modulo
  \<open>2^16\<close>.
\<close>

definition js_truncate :: "real \<Rightarrow> int" where
  "js_truncate v = (if v < 0 then \<lceil>v\<rceil> else \<lfloor>v\<rfloor>)"

fun ToInt16 :: "jsnum \<Rightarrow> 16 word" where
  "ToInt16 (Fin v) = word_of_int (js_truncate v)"
| "ToInt16 PosInf = 0"
| "ToInt16 NegInf = 0"
| "ToInt16 NaN = 0"

text \<open>
  The \<open>DataView\<close> over the \<open>ArrayBuffer\<close> is the list of its bytes. Every setter is
  called with \<open>littleEndian = true\<close> and throws a \<open>RangeError\<close> when the bytes it
  writes do not lie inside the buffer. Integer arguments are reduced modulo the width of
  the field.
\<close>

definition setUint8 :: "byte list \<Rightarrow> nat \<Rightarrow> int \<Rightarrow> error + byte list" where
  "setUint8 view byteOffset v =
     (if byteOffset + 1 \<le> length view
      then Inr (view[byteOffset := word_of_int v])
      else Inl RangeError)"

definition store16 :: "byte list \<Rightarrow> nat \<Rightarrow> 16 word \<Rightarrow> error + byte list" where
  "store16 view byteOffset w =
     (if byteOffset + 2 \<le> length view
      then Inr (view[byteOffset := ucast w, byteOffset + 1 := ucast (drop_bit 8 w)])
      else Inl RangeError)"

definition setUint16 :: "byte list \<Rightarrow> nat \<Rightarrow> int \<Rightarrow> error + byte list" where
  "setUint16 view byteOffset v = store16 view byteOffset (word_of_int v)"

definition setInt16 :: "byte list \<Rightarrow> nat \<Rightarrow> jsnum \<Rightarrow> error + byte list" where
  "setInt16 view byteOffset v = store16 view byteOffset (ToInt16 v)"

definition setUint32 :: "byte list \<Rightarrow> nat \<Rightarrow> int \<Rightarrow> error + byte list" where
  "setUint32 view byteOffset v =
     (let w = (word_of_int v :: 32 word) in
      if byteOffset + 4 \<le> length view
      then Inr (view[byteOffset := ucast w,
                     byteOffset + 1 := ucast (drop_bit 8 w),
                     byteOffset + 2 := ucast (drop_bit 16 w),
                     byteOffset + 3 := ucast (drop_bit 24 w)])
      else Inl RangeError)"

fun writeString :: "byte list \<Rightarrow> nat \<Rightarrow> string \<Rightarrow> error + byte list" where
  "writeString view offset [] = Inr view"
| "writeString view offset (c # str) =
     (case setUint8 view offset (of_char c) of
        Inl e \<Rightarrow> Inl e
      | Inr view' \<Rightarrow> writeString view' (offset + 1) str)"

text \<open>A sequence of statements on the view; an exception ends it.\<close>

fun statements :: "('s \<Rightarrow> error + 's) list \<Rightarrow> 's \<Rightarrow> error + 's" where
  "statements [] s = Inr s"
| "statements (f # fs) s = (case f s of Inl e \<Rightarrow> Inl e | Inr s' \<Rightarrow> statements fs s')"

text \<open>The loop over the samples, \<open>offset\<close> advancing by 2.\<close>

fun writeSamples :: "byte list \<Rightarrow> nat \<Rightarrow> jsnum list \<Rightarrow> error + byte list" where
  "writeSamples view offset [] = Inr view"
| "writeSamples view offset (s # samples) =
     (let sample = Math_max_neg1 (Math_min_1 s);
          intSample = (if jsLt sample 0 then jsTimes sample 0x8000 else jsTimes sample 0x7FFF)
      in case setInt16 view offset intSample of
           Inl e \<Rightarrow> Inl e
         | Inr view' \<Rightarrow> writeSamples view' (offset + 2) samples)"

definition encodeWAV :: "jsnum list \<Rightarrow> int \<Rightarrow> error + byte list" where
  "encodeWAV samples sampleRate =
     (let numChannels = 1;
          bitsPerSample = 16;
          bytesPerSample = bitsPerSample div 8;
          blockAlign = numChannels * bytesPerSample;
          byteRate = sampleRate * blockAlign;
          dataSize = int (length samples) * bytesPerSample;
          headerSize = 44;
          totalSize = headerSize + dataSize;
          buffer = replicate (nat totalSize) (0 :: byte)
      in statements
           [ \<lambda>view. writeString view 0 ''RIFF'',
             \<lambda>view. setUint32 view 4 (totalSize - 8),
             \<lambda>view. writeString view 8 ''WAVE'',
             \<lambda>view. writeString view 12 ''fmt '',
             \<lambda>view. setUint32 view 16 16,
             \<lambda>view. setUint16 view 20 1,
             \<lambda>view. setUint16 view 22 numChannels,
             \<lambda>view. setUint32 view 24 sampleRate,
             \<lambda>view. setUint32 view 28 byteRate,
             \<lambda>view. setUint16 view 32 blockAlign,
             \<lambda>view. setUint16 view 34 bitsPerSample,
             \<lambda>view. writeString view 36 ''data'',
             \<lambda>view. setUint32 view 40 dataSize,
             \<lambda>view. writeSamples view 44 samples ]
           buffer)"

text \<open>
  Readers for stating what the buffer holds: the little-endian fields a consumer of the
  file reads back (\<open>DataView.getUint16\<close>, \<open>getInt16\<close> and \<open>getUint32\<close> with
  \<open>littleEndian = true\<close>), and a four-character tag.
\<close>

definition getUint16 :: "byte list \<Rightarrow> nat \<Rightarrow> 16 word" where
  "getUint16 view byteOffset =
     ucast (view ! byteOffset) OR push_bit 8 (ucast (view ! (byteOffset + 1)))"

definition getInt16 :: "byte list \<Rightarrow> nat \<Rightarrow> int" where
  "getInt16 view byteOffset = sint (getUint16 view byteOffset)"

definition getUint32 :: "byte list \<Rightarrow> nat \<Rightarrow> 32 word" where
  "getUint32 view byteOffset =
     ucast (view ! byteOffset) OR push_bit 8 (ucast (view ! (byteOffset + 1))) OR
     push_bit 16 (ucast (view ! (byteOffset + 2))) OR
     push_bit 24 (ucast (view ! (byteOffset + 3)))"

definition tagAt :: "byte list \<Rightarrow> nat \<Rightarrow> byte list" where
  "tagAt view byteOffset = take 4 (drop byteOffset view)"

text \<open>
  The sample formula of the format table, \<open>round(clamp(s,-1,1) * (s<0 ? 32768 : 32767))\<close>,
  for comparison with what \<open>encodeWAV\<close> stores.
\<close>

definition spec_sample :: "real \<Rightarrow> int" where
  "spec_sample s = Math_round (max (- 1) (min 1 s) * (if s < 0 then 32768 else 32767))"

section \<open>Raster operations (utils/canvas.ts)\<close>

text \<open>
  An \<open>HTMLImageElement\<close> is its natural size together with the RGBA bytes of the decoded
  image (row-major, four bytes per pixel, \<open>4 * naturalWidth * naturalHeight\<close> of them,
  color channels not multiplied by alpha). The data URL a raster operation returns is
  modelled by the image it decodes to. The variable \<open>image\<close> of the source is \<open>img\<close>
  here. The fields of \<open>RGBColor\<close> carry the prefix \<open>rgb_\<close>.
\<close>

record RGBColor =
  rgb_r :: real
  rgb_g :: real
  rgb_b :: real

record HTMLImageElement =
  naturalWidth :: nat
  naturalHeight :: nat
  pixels :: "byte list"

text \<open>A store of an integer into a \<open>Uint8ClampedArray\<close>.\<close>

definition toUint8Clamped :: "int \<Rightarrow> byte" where
  "toUint8Clamped v = (if v < 0 then 0 else if 255 < v then 255 else word_of_int v)"

subsection \<open>The canvas\<close>

text \<open>
  A 2D canvas keeps its pixels with the color channels multiplied by alpha. For a pixel
  written to it (\<open>drawImage\<close>, \<open>putImageData\<close>) with the bytes \<open>r, g, b, a\<close>, what is
  read from it (\<open>getImageData\<close>, \<open>toDataURL\<close>) is: the same four bytes when \<open>a = 255\<close>;
  four zero bytes when \<open>a = 0\<close>; and for \<open>0 < a < 255\<close> the alpha \<open>a\<close> with color channels
  rounded in a way that differs between browsers. That rounding is the parameter \<open>canvas\<close>
  of the model: \<open>canvas c a\<close> is the channel read for a channel \<open>c\<close> written with alpha
  \<open>a\<close>. \<open>throughCanvas\<close> is the passage of a whole buffer of RGBA bytes.
\<close>

type_synonym rounding = "byte \<Rightarrow> byte \<Rightarrow> byte"

definition readBack :: "rounding \<Rightarrow> byte \<Rightarrow> byte \<Rightarrow> byte" where
  "readBack canvas c a = (if a = 255 then c else if a = 0 then 0 else canvas c a)"

fun throughCanvas :: "rounding \<Rightarrow> byte list \<Rightarrow> byte list" where
  "throughCanvas canvas (r # g # b # a # data) =
     readBack canvas r a # readBack canvas g a # readBack canvas b a # a #
     throughCanvas canvas data"
| "throughCanvas canvas data = data"

text \<open>
  A rounding for the examples: the canvas stores \<open>round(c * a / 255)\<close> and reads
  \<open>round(stored * 255 / a)\<close>.
\<close>

definition premultiplied :: rounding where
  "premultiplied c a =
     toUint8Clamped
       (Math_round (real_of_int (Math_round (real_of_int (uint c) * real_of_int (uint a) / 255))
                    * 255 / real_of_int (uint a)))"

text \<open>
  \<open>ctx.drawImage(image, 0, 0)\<close> on a canvas of the size of the image followed by
  \<open>ctx.getImageData(sx, sy, 1, 1).data\<close>; a pixel outside the canvas reads as transparent
  black.
\<close>

definition getImageData :: "rounding \<Rightarrow> HTMLImageElement \<Rightarrow> int \<Rightarrow> int \<Rightarrow> byte list" where
  "getImageData canvas img sx sy =
     (if 0 \<le> sx \<and> sx < int (naturalWidth img) \<and> 0 \<le> sy \<and> sy < int (naturalHeight img)
      then take 4 (drop (4 * (nat sy * naturalWidth img + nat sx))
                     (throughCanvas canvas (pixels img)))
      else [0, 0, 0, 0])"

subsection \<open>detectBackgroundColor\<close>

text \<open>
  \<open>for (let i = i0; i < n; i += step) body\<close>. Both loops of \<open>detectBackgroundColor\<close>
  run with \<open>step = Math.max(1, ...)\<close>, so the test \<open>0 < step\<close> never fails there; it
  makes the function total.
\<close>

function forLoop :: "nat \<Rightarrow> nat \<Rightarrow> nat \<Rightarrow> (nat \<Rightarrow> 's \<Rightarrow> 's) \<Rightarrow> 's \<Rightarrow> 's" where
  "forLoop i n step body s =
     (if i < n \<and> 0 < step then forLoop (i + step) n step body (body i s) else s)"
  by pat_completeness auto
termination
  by (relation "measure (\<lambda>(i, n, step, body, s). n - i)") auto

declare forLoop.simps [simp del]

text \<open>
  \<open>addSample\<close> is called with integer coordinates only, on which \<open>Math.round\<close> is the
  identity; \<open>colors.push\<close> appends.
\<close>

definition addSample ::
  "rounding \<Rightarrow> HTMLImageElement \<Rightarrow> int \<Rightarrow> int \<Rightarrow> RGBColor list \<Rightarrow> RGBColor list" where
  "addSample canvas img x y colors =
     (let w = int (naturalWidth img);
          h = int (naturalHeight img);
          cx = max 0 (min (w - 1) x);
          cy = max 0 (min (h - 1) y);
          pixel = getImageData canvas img cx cy
      in colors @ [\<lparr> rgb_r = real_of_int (uint (pixel ! 0)),
                      rgb_g = real_of_int (uint (pixel ! 1)),
                      rgb_b = real_of_int (uint (pixel ! 2)) \<rparr>])"

text \<open>
  The first half of \<open>detectBackgroundColor\<close>: the array \<open>colors\<close> after the two sampling
  loops. \<open>Math.floor((w + h) * 2 / sampleCount)\<close> is the integer quotient.
\<close>

definition edgeSamples :: "rounding \<Rightarrow> HTMLImageElement \<Rightarrow> RGBColor list" where
  "edgeSamples canvas img =
     (let w = naturalWidth img;
          h = naturalHeight img;
          sampleCount = min 200 ((w + h) * 2);
          step = max 1 ((w + h) * 2 div sampleCount);
          colors = forLoop 0 w step
                     (\<lambda>i colors. addSample canvas img (int i) (int h - 1)
                                   (addSample canvas img (int i) 0 colors))
                     [];
          colors = forLoop 0 h step
                     (\<lambda>i colors. addSample canvas img (int w - 1) (int i)
                                   (addSample canvas img 0 (int i) colors))
                     colors
      in colors)"

text \<open>
  The \<open>Map\<close> from key strings to buckets is an association list in insertion order, the
  order \<open>buckets.values()\<close> iterates in. The key string, three integers separated by
  commas, is the triple of the integers. \<open>Map_set\<close> is \<open>Map.prototype.set\<close>: an existing
  key keeps its position.
\<close>

record bucket =
  count :: nat
  totalR :: real
  totalG :: real
  totalB :: real

type_synonym bucketKey = "int \<times> int \<times> int"

definition bucketSize :: real where
  "bucketSize = 16"

definition keyOf :: "RGBColor \<Rightarrow> bucketKey" where
  "keyOf c = (\<lfloor>rgb_r c / bucketSize\<rfloor>, \<lfloor>rgb_g c / bucketSize\<rfloor>, \<lfloor>rgb_b c / bucketSize\<rfloor>)"

fun Map_set :: "('k \<times> 'v) list \<Rightarrow> 'k \<Rightarrow> 'v \<Rightarrow> ('k \<times> 'v) list" where
  "Map_set [] k v = [(k, v)]"
| "Map_set ((k', v') # m) k v = (if k' = k then (k, v) # m else (k', v') # Map_set m k v)"

text \<open>The body of the loop \<open>for (const c of colors)\<close>.\<close>

definition addToBuckets :: "(bucketKey \<times> bucket) list \<Rightarrow> RGBColor \<Rightarrow> (bucketKey \<times> bucket) list" where
  "addToBuckets buckets c =
     (let key = keyOf c;
          bucket = (case map_of buckets key of
                      Some b \<Rightarrow> b
                    | None \<Rightarrow> \<lparr> count = 0, totalR = 0, totalG = 0, totalB = 0 \<rparr>);
          bucket = bucket \<lparr> count := count bucket + 1 \<rparr>;
          bucket = bucket \<lparr> totalR := totalR bucket + rgb_r c \<rparr>;
          bucket = bucket \<lparr> totalG := totalG bucket + rgb_g c \<rparr>;
          bucket = bucket \<lparr> totalB := totalB bucket + rgb_b c \<rparr>
      in Map_set buckets key bucket)"

text \<open>The body of the loop \<open>for (const bucket of buckets.values())\<close>.\<close>

definition pickBest :: "bucket \<Rightarrow> bucket \<Rightarrow> bucket" where
  "pickBest bestBucket bucket = (if count bucket > count bestBucket then bucket else bestBucket)"

text \<open>
  With no sample at all (an image of width and height 0) \<open>bestBucket.count\<close> is 0 and
  the three channels of the JavaScript result are \<open>Infinity\<close>; the model returns \<open>None\<close>
  there.
\<close>

definition detectBackgroundColor :: "rounding \<Rightarrow> HTMLImageElement \<Rightarrow> RGBColor option" where
  "detectBackgroundColor canvas img =
     (let colors = edgeSamples canvas img;
          buckets = foldl addToBuckets [] colors;
          bestBucket = foldl pickBest \<lparr> count = 0, totalR = 255, totalG = 255, totalB = 255 \<rparr>
                         (map snd buckets)
      in if count bestBucket = 0 then None
         else Some \<lparr> rgb_r = real_of_int (Math_round (totalR bestBucket / real (count bestBucket))),
                     rgb_g = real_of_int (Math_round (totalG bestBucket / real (count bestBucket))),
                     rgb_b = real_of_int (Math_round (totalB bestBucket / real (count bestBucket))) \<rparr>)"

text \<open>
  For stating results about the samples: the color \<open>addSample\<close> pushes for the pixel
  \<open>(x, y)\<close>, the pixels on the four edges of the image, the samples that fall into the
  bucket with a given key, and the bucket a list of samples adds up to.
\<close>

definition colorAt :: "rounding \<Rightarrow> HTMLImageElement \<Rightarrow> int \<Rightarrow> int \<Rightarrow> RGBColor" where
  "colorAt canvas img x y =
     (let pixel = getImageData canvas img x y
      in \<lparr> rgb_r = real_of_int (uint (pixel ! 0)),
           rgb_g = real_of_int (uint (pixel ! 1)),
           rgb_b = real_of_int (uint (pixel ! 2)) \<rparr>)"

definition onEdge :: "HTMLImageElement \<Rightarrow> int \<Rightarrow> int \<Rightarrow> bool" where
  "onEdge img x y =
     (0 \<le> x \<and> x < int (naturalWidth img) \<and> 0 \<le> y \<and> y < int (naturalHeight img) \<and>
      (x = 0 \<or> x = int (naturalWidth img) - 1 \<or> y = 0 \<or> y = int (naturalHeight img) - 1))"

definition samplesInBucket :: "RGBColor list \<Rightarrow> bucketKey \<Rightarrow> RGBColor list" where
  "samplesInBucket colors k = filter (\<lambda>c. keyOf c = k) colors"

definition bucketOf :: "RGBColor list \<Rightarrow> bucket" where
  "bucketOf cs = \<lparr> count = length cs, totalR = sum_list (map rgb_r cs),
                   totalG = sum_list (map rgb_g cs), totalB = sum_list (map rgb_b cs) \<rparr>"

subsection \<open>getPixelColor\<close>

text \<open>
  The display coordinates are mapped to a source pixel by a quotient by the scale.
  \<open>Math.round\<close> keeps a non-finite quotient, and \<open>getImageData\<close> converts a \<open>NaN\<close>
  coordinate, the only non-finite one that passes the bounds test, to 0.
\<close>

fun jsRound :: "jsnum \<Rightarrow> jsnum" where
  "jsRound (Fin a) = Fin (real_of_int (Math_round a))"
| "jsRound PosInf = PosInf"
| "jsRound NegInf = NegInf"
| "jsRound NaN = NaN"

fun toLong :: "jsnum \<Rightarrow> int" where
  "toLong (Fin a) = (if a < 0 then \<lceil>a\<rceil> else \<lfloor>a\<rfloor>)"
| "toLong PosInf = 0"
| "toLong NegInf = 0"
| "toLong NaN = 0"

definition getPixelColor ::
  "rounding \<Rightarrow> HTMLImageElement \<Rightarrow> real \<Rightarrow> real \<Rightarrow> real \<Rightarrow> real \<Rightarrow> real \<Rightarrow> RGBColor option" where
  "getPixelColor canvas img canvasX canvasY scale offsetX offsetY =
     (let imgX = jsRound (jsDiv (canvasX - offsetX) scale);
          imgY = jsRound (jsDiv (canvasY - offsetY) scale)
      in if jsLt imgX 0 \<or> jsLt imgY 0 \<or>
            jsGe imgX (real (naturalWidth img)) \<or> jsGe imgY (real (naturalHeight img))
         then None
         else Some (colorAt canvas img (toLong imgX) (toLong imgY)))"

subsection \<open>removeBackground\<close>

text \<open>
  The loop \<open>for (let i = 0; i < data.length; i += 4)\<close> over the RGBA bytes. The
  arithmetic on distances and thresholds is that of the real numbers. Fewer than four
  trailing bytes (which \<open>getImageData\<close> never produces) are left as they are, as the
  comparison with a \<open>NaN\<close> distance leaves them in the source.
\<close>

fun removeBackgroundLoop :: "RGBColor \<Rightarrow> real \<Rightarrow> byte list \<Rightarrow> byte list" where
  "removeBackgroundLoop targetColor tolerance (r # g # b # a # data) =
     (let distance = sqrt ((real_of_int (uint r) - rgb_r targetColor)\<^sup>2 +
                           (real_of_int (uint g) - rgb_g targetColor)\<^sup>2 +
                           (real_of_int (uint b) - rgb_b targetColor)\<^sup>2);
          maxDistance = 441;
          threshold = (tolerance / 100) * maxDistance
      in r # g # b #
         (if distance \<le> threshold
          then toUint8Clamped
                 (if distance \<le> threshold * 0.7 then 0
                  else Math_round (255 * ((distance - threshold * 0.7) / (threshold * 0.3))))
          else a) #
         removeBackgroundLoop targetColor tolerance data)"
| "removeBackgroundLoop targetColor tolerance data = data"

text \<open>
  \<open>removeBackground\<close>: the image is drawn on a canvas of its size, the bytes
  \<open>getImageData\<close> reads from it go through the loop, \<open>putImageData\<close> writes them to the
  canvas, and the result is the image of the data URL \<open>toDataURL\<close> reads from it.
\<close>

definition removeBackground ::
  "rounding \<Rightarrow> HTMLImageElement \<Rightarrow> RGBColor \<Rightarrow> real \<Rightarrow> HTMLImageElement" where
  "removeBackground canvas img targetColor tolerance =
     (let data = throughCanvas canvas (pixels img);
          data = removeBackgroundLoop targetColor tolerance data
      in img \<lparr> pixels := throughCanvas canvas data \<rparr>)"

text \<open>
  For stating results about the pixel with index \<open>p\<close> of a buffer of RGBA bytes: the
  distance the loop computes for it, and the value the loop leaves in its alpha byte.
\<close>

definition distanceAt :: "RGBColor \<Rightarrow> byte list \<Rightarrow> nat \<Rightarrow> real" where
  "distanceAt targetColor data p =
     sqrt ((real_of_int (uint (data ! (4 * p))) - rgb_r targetColor)\<^sup>2 +
           (real_of_int (uint (data ! (4 * p + 1))) - rgb_g targetColor)\<^sup>2 +
           (real_of_int (uint (data ! (4 * p + 2))) - rgb_b targetColor)\<^sup>2)"

definition storedAlpha :: "RGBColor \<Rightarrow> real \<Rightarrow> byte \<Rightarrow> byte \<Rightarrow> byte \<Rightarrow> byte \<Rightarrow> byte" where
  "storedAlpha targetColor tolerance r g b a =
     (let distance = sqrt ((real_of_int (uint r) - rgb_r targetColor)\<^sup>2 +
                           (real_of_int (uint g) - rgb_g targetColor)\<^sup>2 +
                           (real_of_int (uint b) - rgb_b targetColor)\<^sup>2);
          threshold = (tolerance / 100) * 441
      in if distance \<le> threshold
         then toUint8Clamped
                (if distance \<le> threshold * 0.7 then 0
                 else Math_round (255 * ((distance - threshold * 0.7) / (threshold * 0.3))))
         else a)"

text \<open>
  The threshold as the specification words it, \<open>tolerancePercent/100 * 441.67\<close>, and the
  alpha of the linear ramp from 0 to 255 across the band from 0.7 times a threshold to the
  threshold, for comparison with the code.
\<close>

definition spec_threshold :: "real \<Rightarrow> real" where
  "spec_threshold tolerancePercent = tolerancePercent / 100 * 441.67"

definition spec_ramp_alpha :: "real \<Rightarrow> real \<Rightarrow> int" where
  "spec_ramp_alpha distance threshold =
     Math_round (255 * ((distance - 0.7 * threshold) / (threshold - 0.7 * threshold)))"

section \<open>The editor component (components/ImageEditor.tsx)\<close>

text \<open>
  The state of the component: its \<open>useState\<close> cells and its refs, as one record. A data
  URL is modelled by the image it encodes, so \<open>croppedImage\<close>, \<open>processedImage\<close> and
  the entries of the undo and redo stacks are images. \<open>containerRef\<close> holds the client
  width and height of the container element.

  Every handler is a function from the state before the event to the state after it. An
  image created with \<open>new Image()\<close> from a data URL loads without further input, so the
  assignments of its \<open>onload\<close> callback are part of the handler that sets its \<open>src\<close>.
\<close>

datatype InteractionMode = Idle | Drawing | Moving | Resizing

record Layout =
  scale :: real
  offsetX :: real
  offsetY :: real

record Editor =
  imageRef :: "HTMLImageElement option"
  containerRef :: "(real \<times> real) option"
  selection :: "SelectionRect option"
  interactionMode :: InteractionMode
  activeHandle :: "ResizeHandle option"
  cursorStyle :: string
  croppedImage :: "HTMLImageElement option"
  canvasSize :: "real \<times> real"
  imageLayout :: Layout
  removeBgMode :: bool
  pickingColor :: bool
  bgColor :: "RGBColor option"
  tolerance :: real
  processedImage :: "HTMLImageElement option"
  resizeMode :: bool
  resizeWidth :: real
  resizeHeight :: real
  lockAspect :: bool
  aspectRatio :: real
  fillMode :: bool
  fillColor :: string
  fillTolerance :: real
  undoStack :: "HTMLImageElement list"
  redoStack :: "HTMLImageElement list"
  undoCount :: nat
  redoCount :: nat
  dragStart :: Point
  selectionStart :: "SelectionRect option"

text \<open>
  \<open>cropImage\<close>, \<open>resizeImage\<close>, \<open>floodFill\<close> and \<open>flipHorizontal\<close> draw through the
  canvas; the editor is modelled over any four functions of their types, and over any
  rounding of the canvas. \<open>floodFill\<close>
  receives the fill color as the hex string the handler parses with \<open>parseInt\<close>, and the
  seed coordinates as the quotients the handler computes.
\<close>

record RasterOps =
  cropImage :: "HTMLImageElement \<Rightarrow> SelectionRect \<Rightarrow> real \<Rightarrow> real \<Rightarrow> real \<Rightarrow> HTMLImageElement"
  resizeImage :: "HTMLImageElement \<Rightarrow> real \<Rightarrow> real \<Rightarrow> HTMLImageElement"
  floodFill :: "HTMLImageElement \<Rightarrow> jsnum \<Rightarrow> jsnum \<Rightarrow> string \<Rightarrow> real \<Rightarrow> HTMLImageElement"
  flipHorizontal :: "HTMLImageElement \<Rightarrow> HTMLImageElement"
  canvasRounding :: rounding

text \<open>The initial values of the state cells and refs, with the container mounted.\<close>

definition initialEditor :: "real \<Rightarrow> real \<Rightarrow> Editor" where
  "initialEditor containerW containerH =
     \<lparr> imageRef = None,
       containerRef = Some (containerW, containerH),
       selection = None,
       interactionMode = Idle,
       activeHandle = None,
       cursorStyle = ''crosshair'',
       croppedImage = None,
       canvasSize = (0, 0),
       imageLayout = \<lparr> scale = 1, offsetX = 0, offsetY = 0 \<rparr>,
       removeBgMode = False,
       pickingColor = False,
       bgColor = None,
       tolerance = 10,
       processedImage = None,
       resizeMode = False,
       resizeWidth = 0,
       resizeHeight = 0,
       lockAspect = True,
       aspectRatio = 1,
       fillMode = False,
       fillColor = ''#ff0000'',
       fillTolerance = 10,
       undoStack = [],
       redoStack = [],
       undoCount = 0,
       redoCount = 0,
       dragStart = \<lparr> pt_x = 0, pt_y = 0 \<rparr>,
       selectionStart = None \<rparr>"

text \<open>
  \<open>computeLayout\<close>. The quotients are those of the reals: a loaded image has natural
  width and height of at least 1.
\<close>

definition computeLayout :: "HTMLImageElement \<Rightarrow> Editor \<Rightarrow> Editor" where
  "computeLayout img s =
     (case containerRef s of
        None \<Rightarrow> s
      | Some (containerW, containerH) \<Rightarrow>
          (let scaleX = containerW / real (naturalWidth img);
               scaleY = containerH / real (naturalHeight img);
               scale = min (min scaleX scaleY) 1;
               displayW = real (naturalWidth img) * scale;
               displayH = real (naturalHeight img) * scale;
               offsetX = (containerW - displayW) / 2;
               offsetY = (containerH - displayH) / 2
           in s \<lparr> canvasSize := (containerW, containerH),
                  imageLayout := \<lparr> scale = scale, offsetX = offsetX, offsetY = offsetY \<rparr> \<rparr>))"

text \<open>The effect that loads \<open>imageSrc\<close>.\<close>

definition loadImage :: "HTMLImageElement \<Rightarrow> Editor \<Rightarrow> Editor" where
  "loadImage img s =
     computeLayout img
       (s \<lparr> imageRef := Some img, undoStack := [], redoStack := [],
            undoCount := 0, redoCount := 0 \<rparr>)"

definition pushUndo :: "Editor \<Rightarrow> Editor" where
  "pushUndo s =
     (case imageRef s of
        None \<Rightarrow> s
      | Some img \<Rightarrow>
          s \<lparr> undoStack := undoStack s @ [img], redoStack := [],
               undoCount := length (undoStack s @ [img]), redoCount := 0 \<rparr>)"

definition handleUndo :: "Editor \<Rightarrow> Editor" where
  "handleUndo s =
     (if length (undoStack s) = 0 then s
      else case imageRef s of
        None \<Rightarrow> s
      | Some img \<Rightarrow>
          (let redo = redoStack s @ [img];
               prev = last (undoStack s);
               undo = butlast (undoStack s)
           in computeLayout prev
                (s \<lparr> redoStack := redo, undoStack := undo, imageRef := Some prev,
                     undoCount := length undo, redoCount := length redo \<rparr>)))"

definition handleRedo :: "Editor \<Rightarrow> Editor" where
  "handleRedo s =
     (if length (redoStack s) = 0 then s
      else case imageRef s of
        None \<Rightarrow> s
      | Some img \<Rightarrow>
          (let undo = undoStack s @ [img];
               nextImg = last (redoStack s);
               redo = butlast (redoStack s)
           in computeLayout nextImg
                (s \<lparr> undoStack := undo, redoStack := redo, imageRef := Some nextImg,
                     undoCount := length undo, redoCount := length redo \<rparr>)))"

text \<open>\<open>handleMouseDown\<close>, with \<open>pos\<close> the canvas coordinates of the event.\<close>

definition handleMouseDown :: "RasterOps \<Rightarrow> Editor \<Rightarrow> Point \<Rightarrow> Editor" where
  "handleMouseDown ops s pos =
     (if croppedImage s \<noteq> None \<or> processedImage s \<noteq> None then s
      else if resizeMode s then s
      else if fillMode s then
        (case imageRef s of
           None \<Rightarrow> s
         | Some img \<Rightarrow>
             (let imgX = jsDiv (pt_x pos - offsetX (imageLayout s)) (scale (imageLayout s));
                  imgY = jsDiv (pt_y pos - offsetY (imageLayout s)) (scale (imageLayout s))
              in if jsLt imgX 0 \<or> jsLt imgY 0 \<or>
                    jsGe imgX (real (naturalWidth img)) \<or> jsGe imgY (real (naturalHeight img))
                 then s
                 else (let result = floodFill ops img imgX imgY (fillColor s) (fillTolerance s);
                           s = pushUndo s
                       in computeLayout result (s \<lparr> imageRef := Some result \<rparr>))))
      else if removeBgMode s \<and> pickingColor s then
        (case imageRef s of
           None \<Rightarrow> s
         | Some img \<Rightarrow>
             (case getPixelColor (canvasRounding ops) img (pt_x pos) (pt_y pos)
                     (scale (imageLayout s)) (offsetX (imageLayout s)) (offsetY (imageLayout s)) of
                Some color \<Rightarrow> s \<lparr> bgColor := Some color, pickingColor := False \<rparr>
              | None \<Rightarrow> s))
      else if removeBgMode s then s
      else
        (let s = s \<lparr> dragStart := pos \<rparr>;
             startNew = s \<lparr> interactionMode := Drawing,
                            selection := Some \<lparr> rect_x = pt_x pos, rect_y = pt_y pos,
                                                 rect_width = 0, rect_height = 0 \<rparr> \<rparr>
         in case selection s of
              None \<Rightarrow> startNew
            | Some sel \<Rightarrow>
                (case hitTestHandle sel (pt_x pos) (pt_y pos) of
                   Some handle \<Rightarrow>
                     s \<lparr> interactionMode := Resizing, activeHandle := Some handle,
                          selectionStart := Some (normalizeRect sel) \<rparr>
                 | None \<Rightarrow>
                     if hitTestSelection sel (pt_x pos) (pt_y pos)
                     then s \<lparr> interactionMode := Moving, selectionStart := Some (normalizeRect sel) \<rparr>
                     else startNew)))"

definition handleMouseMove :: "Editor \<Rightarrow> Point \<Rightarrow> Editor" where
  "handleMouseMove s pos =
     (if croppedImage s \<noteq> None \<or> processedImage s \<noteq> None then s
      else if resizeMode s then s
      else if fillMode s then s \<lparr> cursorStyle := ''crosshair'' \<rparr>
      else if removeBgMode s \<and> pickingColor s then s \<lparr> cursorStyle := ''crosshair'' \<rparr>
      else if removeBgMode s then s
      else if interactionMode s = Idle then
        (case selection s of
           None \<Rightarrow> s \<lparr> cursorStyle := ''crosshair'' \<rparr>
         | Some sel \<Rightarrow>
             (case hitTestHandle sel (pt_x pos) (pt_y pos) of
                Some handle \<Rightarrow> s \<lparr> cursorStyle := getResizeCursor handle \<rparr>
              | None \<Rightarrow>
                  if hitTestSelection sel (pt_x pos) (pt_y pos)
                  then s \<lparr> cursorStyle := ''move'' \<rparr>
                  else s \<lparr> cursorStyle := ''crosshair'' \<rparr>))
      else
        (let dx = pt_x pos - pt_x (dragStart s);
             dy = pt_y pos - pt_y (dragStart s)
         in if interactionMode s = Drawing then
              s \<lparr> selection :=
                    (case selection s of
                       Some prev \<Rightarrow> Some (prev \<lparr> rect_width := dx, rect_height := dy \<rparr>)
                     | None \<Rightarrow> None) \<rparr>
            else if interactionMode s = Moving \<and> selectionStart s \<noteq> None then
              (case selectionStart s of
                 Some st \<Rightarrow>
                   s \<lparr> selection := Some \<lparr> rect_x = rect_x st + dx, rect_y = rect_y st + dy,
                                             rect_width = rect_width st,
                                             rect_height = rect_height st \<rparr> \<rparr>
               | None \<Rightarrow> s)
            else if interactionMode s = Resizing \<and> activeHandle s \<noteq> None \<and>
                    selectionStart s \<noteq> None then
              (case (activeHandle s, selectionStart s) of
                 (Some handle, Some st) \<Rightarrow> s \<lparr> selection := Some (applyResize st handle dx dy) \<rparr>
               | _ \<Rightarrow> s)
            else s))"

definition handleMouseUp :: "Editor \<Rightarrow> Editor" where
  "handleMouseUp s =
     (let s =
        (case selection s of
           Some sel \<Rightarrow>
             if interactionMode s = Drawing then
               (let n = normalizeRect sel
                in if rect_width n < 5 \<or> rect_height n < 5
                   then s \<lparr> selection := None \<rparr>
                   else s \<lparr> selection := Some n \<rparr>)
             else s
         | None \<Rightarrow> s)
      in s \<lparr> interactionMode := Idle, activeHandle := None, selectionStart := None \<rparr>)"

definition handleCrop :: "RasterOps \<Rightarrow> Editor \<Rightarrow> Editor" where
  "handleCrop ops s =
     (case (imageRef s, selection s) of
        (Some img, Some sel) \<Rightarrow>
          s \<lparr> croppedImage :=
                Some (cropImage ops img sel (scale (imageLayout s))
                        (offsetX (imageLayout s)) (offsetY (imageLayout s))) \<rparr>
      | _ \<Rightarrow> s)"

definition handleClearSelection :: "Editor \<Rightarrow> Editor" where
  "handleClearSelection s =
     s \<lparr> selection := None, croppedImage := None, processedImage := None \<rparr>"

definition handleEnterRemoveBg :: "RasterOps \<Rightarrow> Editor \<Rightarrow> Editor" where
  "handleEnterRemoveBg ops s =
     (let s = s \<lparr> removeBgMode := True, selection := None, croppedImage := None,
                   processedImage := None \<rparr>
      in case imageRef s of
           Some img \<Rightarrow> s \<lparr> bgColor := detectBackgroundColor (canvasRounding ops) img \<rparr>
         | None \<Rightarrow> s)"

definition handleExitRemoveBg :: "Editor \<Rightarrow> Editor" where
  "handleExitRemoveBg s =
     (let s = s \<lparr> removeBgMode := False, pickingColor := False, bgColor := None,
                   processedImage := None \<rparr>
      in case imageRef s of
           Some img \<Rightarrow> computeLayout img s
         | None \<Rightarrow> s)"

definition handleApplyRemoveBg :: "RasterOps \<Rightarrow> Editor \<Rightarrow> Editor" where
  "handleApplyRemoveBg ops s =
     (case (imageRef s, bgColor s) of
        (Some img, Some color) \<Rightarrow>
          s \<lparr> processedImage :=
                Some (removeBackground (canvasRounding ops) img color (tolerance s)) \<rparr>
      | _ \<Rightarrow> s)"

definition handleUseProcessed :: "Editor \<Rightarrow> Editor" where
  "handleUseProcessed s =
     (case processedImage s of
        None \<Rightarrow> s
      | Some img \<Rightarrow>
          computeLayout img
            (s \<lparr> imageRef := Some img, processedImage := None, removeBgMode := False,
                 bgColor := None, pickingColor := False \<rparr>))"

definition handleEnterFill :: "Editor \<Rightarrow> Editor" where
  "handleEnterFill s =
     s \<lparr> fillMode := True, selection := None, croppedImage := None, processedImage := None \<rparr>"

definition handleExitFill :: "Editor \<Rightarrow> Editor" where
  "handleExitFill s =
     (let s = s \<lparr> fillMode := False \<rparr>
      in case imageRef s of
           Some img \<Rightarrow> computeLayout img s
         | None \<Rightarrow> s)"

definition handleEnterResize :: "Editor \<Rightarrow> Editor" where
  "handleEnterResize s =
     (case imageRef s of
        None \<Rightarrow> s
      | Some img \<Rightarrow>
          s \<lparr> resizeMode := True, selection := None, croppedImage := None,
               processedImage := None,
               resizeWidth := real (naturalWidth img),
               resizeHeight := real (naturalHeight img),
               aspectRatio := real (naturalWidth img) / real (naturalHeight img),
               lockAspect := True \<rparr>)"

definition handleExitResize :: "Editor \<Rightarrow> Editor" where
  "handleExitResize s =
     (let s = s \<lparr> resizeMode := False \<rparr>
      in case imageRef s of
           Some img \<Rightarrow> computeLayout img s
         | None \<Rightarrow> s)"

definition handleApplyResize :: "RasterOps \<Rightarrow> Editor \<Rightarrow> Editor" where
  "handleApplyResize ops s =
     (case imageRef s of
        None \<Rightarrow> s
      | Some img \<Rightarrow>
          if resizeWidth s < 1 \<or> resizeHeight s < 1 then s
          else s \<lparr> processedImage := Some (resizeImage ops img (resizeWidth s) (resizeHeight s)) \<rparr>)"

definition handleUseResized :: "Editor \<Rightarrow> Editor" where
  "handleUseResized s =
     (case processedImage s of
        None \<Rightarrow> s
      | Some img \<Rightarrow>
          computeLayout img
            (s \<lparr> imageRef := Some img, processedImage := None, resizeMode := False \<rparr>))"

definition handleUseCropped :: "Editor \<Rightarrow> Editor" where
  "handleUseCropped s =
     (case croppedImage s of
        None \<Rightarrow> s
      | Some img \<Rightarrow>
          computeLayout img
            (s \<lparr> imageRef := Some img, selection := None, croppedImage := None \<rparr>))"

text \<open>The \<open>onClick\<close> handler of the Flip button.\<close>

definition onClickFlip :: "RasterOps \<Rightarrow> Editor \<Rightarrow> Editor" where
  "onClickFlip ops s =
     (case imageRef s of
        None \<Rightarrow> s
      | Some img \<Rightarrow>
          (let s = pushUndo s;
               result = flipHorizontal ops img
           in computeLayout result (s \<lparr> imageRef := Some result \<rparr>)))"

text \<open>
  The \<open>onClick\<close> handler of the "Use as Source" button, which the render function
  chooses from the state.
\<close>

definition onClickUseAsSource :: "Editor \<Rightarrow> Editor" where
  "onClickUseAsSource s =
     (if croppedImage s \<noteq> None then handleUseCropped s
      else if resizeMode s then handleUseResized s
      else handleUseProcessed s)"

text \<open>
  What the render function derives from the state: \<open>hasValidSelection\<close>, \<open>showingResult\<close>,
  and whether the Crop button is part of the toolbar (the last branch of the toolbar's
  conditional, under \<open>hasValidSelection\<close>).
\<close>

definition hasValidSelection :: "Editor \<Rightarrow> bool" where
  "hasValidSelection s =
     (case selection s of
        None \<Rightarrow> False
      | Some sel \<Rightarrow>
          (let selNorm = normalizeRect sel
           in rect_width selNorm > 5 \<and> rect_height selNorm > 5))"

definition showingResult :: "Editor \<Rightarrow> bool" where
  "showingResult s = (croppedImage s \<noteq> None \<or> processedImage s \<noteq> None)"

definition cropButtonShown :: "Editor \<Rightarrow> bool" where
  "cropButtonShown s =
     (\<not> showingResult s \<and> \<not> fillMode s \<and> \<not> resizeMode s \<and> \<not> removeBgMode s \<and>
      hasValidSelection s)"

section \<open>An example session\<close>

text \<open>
  An 8 by 8 image in a container of 10 by 10 pixels (scale 1, offset 1 on both axes),
  and stand-ins for the four canvas operations, each returning a fixed image different from
  the others. \<open>drag\<close> is the gesture pointer-down, pointer-move, pointer-up.
\<close>

definition exampleImage :: HTMLImageElement where
  "exampleImage = \<lparr> naturalWidth = 8, naturalHeight = 8, pixels = replicate 256 255 \<rparr>"

definition exampleCropped :: HTMLImageElement where
  "exampleCropped = \<lparr> naturalWidth = 6, naturalHeight = 6, pixels = replicate 144 255 \<rparr>"

definition exampleResized :: HTMLImageElement where
  "exampleResized = \<lparr> naturalWidth = 4, naturalHeight = 4, pixels = replicate 64 255 \<rparr>"

definition exampleFilled :: HTMLImageElement where
  "exampleFilled = \<lparr> naturalWidth = 8, naturalHeight = 8, pixels = replicate 256 64 \<rparr>"

definition exampleFlipped :: HTMLImageElement where
  "exampleFlipped = \<lparr> naturalWidth = 8, naturalHeight = 8, pixels = replicate 256 128 \<rparr>"

definition exampleOps :: RasterOps where
  "exampleOps =
     \<lparr> cropImage = (\<lambda>img sel scale offsetX offsetY. exampleCropped),
       resizeImage = (\<lambda>img width height. exampleResized),
       floodFill = (\<lambda>img seedX seedY color tol. exampleFilled),
       flipHorizontal = (\<lambda>img. exampleFlipped),
       canvasRounding = premultiplied \<rparr>"

definition exampleLoaded :: Editor where
  "exampleLoaded = loadImage exampleImage (initialEditor 10 10)"

definition drag :: "RasterOps \<Rightarrow> Editor \<Rightarrow> Point \<Rightarrow> Point \<Rightarrow> Editor" where
  "drag ops s from to = handleMouseUp (handleMouseMove (handleMouseDown ops s from) to)"

text \<open>
  Flip, undo (the redo stack now holds the flipped image), select the 6 by 6 square from
  (1, 1) to (7, 7), crop: the preview of the cropped result.
\<close>

definition exampleCropPreview :: Editor where
  "exampleCropPreview =
     handleCrop exampleOps
       (drag exampleOps (handleUndo (onClickFlip exampleOps exampleLoaded))
          \<lparr> pt_x = 1, pt_y = 1 \<rparr> \<lparr> pt_x = 7, pt_y = 7 \<rparr>)"

section \<open>Properties of the geometry functions\<close>

lemma normalizeRect_idem: "normalizeRect (normalizeRect rect) = normalizeRect rect"
  by (simp add: normalizeRect_def)

text \<open>
  C10. The geometry operations are invariant under normalization of their rectangle
  argument: \<open>getHandlePositions\<close>, \<open>hitTestSelection\<close>, \<open>hitTestHandle\<close> and \<open>applyResize\<close>
  give the same result on a rectangle and on its normalization.
\<close>

theorem geometry_normalize_invariant:
  "getHandlePositions (normalizeRect R) = getHandlePositions R \<and>
   hitTestSelection (normalizeRect R) px py = hitTestSelection R px py \<and>
   hitTestHandle (normalizeRect R) px py = hitTestHandle R px py \<and>
   applyResize (normalizeRect R) handle dx dy = applyResize R handle dx dy"
  by (simp add: getHandlePositions_def hitTestSelection_def hitTestHandle_def
      applyResize_def normalizeRect_idem)

text \<open>
  C7, as the code has it. For every rectangle and point, \<open>hitTestHandle\<close> returns the
  first handle, in the order top-left, top, top-right, right, bottom-right, bottom,
  bottom-left, left, whose position is at most 14 display pixels away from the point on
  each axis (a square of side 28 centred on the handle), and none when no handle is.
\<close>

theorem hitTestHandle_first_in_box:
  "hitTestHandle rect px py =
     find (\<lambda>h. case map_of (getHandlePositions rect) h of
                  Some pos \<Rightarrow> \<bar>px - pt_x pos\<bar> \<le> 14 \<and> \<bar>py - pt_y pos\<bar> \<le> 14
                | None \<Rightarrow> False)
       [TopLeft, Top, TopRight, Right, BottomRight, Bottom, BottomLeft, Left]"
  by (simp add: hitTestHandle_def getHandlePositions_def Let_def HANDLE_HIT_SIZE_def)

text \<open>
  C7, as stated, fails: the point (38, 38) is 12 pixels left of and 12 pixels above the
  top-left handle (50, 50) of the rectangle, at distance about 16.97, outside a radius of
  14 of every handle, yet \<open>hitTestHandle\<close> returns top-left.
\<close>

theorem hitTestHandle_radius_counterexample:
  "hitTestHandle \<lparr> rect_x = 50, rect_y = 50, rect_width = 100, rect_height = 100 \<rparr> 38 38
     = Some TopLeft \<and>
   \<not> spec_within_hit_radius \<lparr> pt_x = 50, pt_y = 50 \<rparr> 38 38 \<and>
   spec_hitTestHandle \<lparr> rect_x = 50, rect_y = 50, rect_width = 100, rect_height = 100 \<rparr> 38 38
     = None"
proof -
  have s: "\<And>v::real. 14\<^sup>2 < v \<Longrightarrow> \<not> sqrt v \<le> 14"
    using real_less_rsqrt by fastforce
  show ?thesis
    by (simp add: hitTestHandle_def getHandlePositions_def normalizeRect_def HANDLE_HIT_SIZE_def
        spec_hitTestHandle_def spec_within_hit_radius_def s power2_eq_square)
qed

section \<open>Properties of the WAV encoder\<close>

lemma le16_roundtrip:
  "ucast (ucast w :: byte) OR push_bit 8 (ucast (ucast (drop_bit 8 w) :: byte)) = (w :: 16 word)"
  by (rule bit_word_eqI) (auto simp: bit_simps)

lemma le32_roundtrip:
  "ucast (ucast w :: byte) OR push_bit 8 (ucast (ucast (drop_bit 8 w) :: byte)) OR
   push_bit 16 (ucast (ucast (drop_bit 16 w) :: byte)) OR
   push_bit 24 (ucast (ucast (drop_bit 24 w) :: byte)) = (w :: 32 word)"
proof (rule bit_word_eqI)
  fix n assume "n < LENGTH(32)"
  then have n: "n < 32" by simp
  consider "n < 8" | "8 \<le> n" "n < 16" | "16 \<le> n" "n < 24" | "24 \<le> n" by linarith
  then show "bit (ucast (ucast w :: byte) OR push_bit 8 (ucast (ucast (drop_bit 8 w) :: byte)) OR
      push_bit 16 (ucast (ucast (drop_bit 16 w) :: byte)) OR
      push_bit 24 (ucast (ucast (drop_bit 24 w) :: byte)) :: 32 word) n = bit w n"
    using n by cases (auto simp: bit_simps)
qed

lemma writeSamples_ok:
  "offset + 2 * length samples \<le> length view \<Longrightarrow>
   \<exists>view'. writeSamples view offset samples = Inr view' \<and> length view' = length view \<and>
     take offset view' = take offset view \<and>
     (\<forall>i < length samples.
        getUint16 view' (offset + 2 * i) =
          ToInt16 (let sample = Math_max_neg1 (Math_min_1 (samples ! i)) in
                   if jsLt sample 0 then jsTimes sample 0x8000 else jsTimes sample 0x7FFF))"
proof (induction samples arbitrary: view offset)
  case Nil
  then show ?case by simp
next
  case (Cons s samples)
  define w where "w = ToInt16 (let sample = Math_max_neg1 (Math_min_1 s) in
                   if jsLt sample 0 then jsTimes sample 0x8000 else jsTimes sample 0x7FFF)"
  define v1 where "v1 = view[offset := ucast w, offset + 1 := ucast (drop_bit 8 w)]"
  have len: "offset + 2 \<le> length view" using Cons.prems by simp
  have step: "setInt16 view offset (let sample = Math_max_neg1 (Math_min_1 s) in
                   if jsLt sample 0 then jsTimes sample 0x8000 else jsTimes sample 0x7FFF) = Inr v1"
    using len by (simp add: setInt16_def store16_def v1_def w_def)
  have "(offset + 2) + 2 * length samples \<le> length v1"
    using Cons.prems by (simp add: v1_def)
  from Cons.IH[OF this] obtain view' where
    r: "writeSamples v1 (offset + 2) samples = Inr view'" and
    l: "length view' = length v1" and
    t: "take (offset + 2) view' = take (offset + 2) v1" and
    n: "\<forall>i < length samples. getUint16 view' (offset + 2 + 2 * i) =
          ToInt16 (let sample = Math_max_neg1 (Math_min_1 (samples ! i)) in
                   if jsLt sample 0 then jsTimes sample 0x8000 else jsTimes sample 0x7FFF)"
    by blast
  have res: "writeSamples view offset (s # samples) = Inr view'"
    using step r by (simp add: Let_def)
  have t0: "take offset view' = take offset view"
  proof -
    have "take offset view' = take offset (take (offset + 2) view')" by (simp add: min_def)
    also have "\<dots> = take offset (take (offset + 2) v1)" using t by simp
    also have "\<dots> = take offset view" by (simp add: v1_def min_def)
    finally show ?thesis .
  qed
  have b0: "view' ! offset = ucast w" and b1: "view' ! (offset + 1) = ucast (drop_bit 8 w)"
  proof -
    have "view' ! offset = take (offset + 2) view' ! offset" by simp
    also have "\<dots> = v1 ! offset" using t by simp
    also have "\<dots> = ucast w" using len by (simp add: v1_def)
    finally show "view' ! offset = ucast w" .
    have "view' ! (offset + 1) = take (offset + 2) view' ! (offset + 1)" by simp
    also have "\<dots> = v1 ! (offset + 1)" using t by simp
    also have "\<dots> = ucast (drop_bit 8 w)" using len by (simp add: v1_def)
    finally show "view' ! (offset + 1) = ucast (drop_bit 8 w)" .
  qed
  have head: "getUint16 view' offset = w"
    using b0 b1 by (simp add: getUint16_def le16_roundtrip)
  have all: "\<forall>i < length (s # samples). getUint16 view' (offset + 2 * i) =
          ToInt16 (let sample = Math_max_neg1 (Math_min_1 ((s # samples) ! i)) in
                   if jsLt sample 0 then jsTimes sample 0x8000 else jsTimes sample 0x7FFF)"
  proof (intro allI impI)
    fix i assume "i < length (s # samples)"
    show "getUint16 view' (offset + 2 * i) =
          ToInt16 (let sample = Math_max_neg1 (Math_min_1 ((s # samples) ! i)) in
                   if jsLt sample 0 then jsTimes sample 0x8000 else jsTimes sample 0x7FFF)"
    proof (cases i)
      case 0
      then show ?thesis using head by (simp add: w_def)
    next
      case (Suc j)
      with \<open>i < length (s # samples)\<close> have "j < length samples" by simp
      with n have "getUint16 view' (offset + 2 + 2 * j) =
          ToInt16 (let sample = Math_max_neg1 (Math_min_1 (samples ! j)) in
                   if jsLt sample 0 then jsTimes sample 0x8000 else jsTimes sample 0x7FFF)" by blast
      then show ?thesis using Suc by (simp add: add.commute add.left_commute)
    qed
  qed
  show ?case using res l t0 all by (simp add: v1_def)
qed

lemma list_update_Cons_numeral:
  "(x # xs)[numeral n := y] = x # xs[pred_numeral n := y]"
  by (simp add: numeral_eq_Suc)

lemma sum_case_id: "(case v of Inl e \<Rightarrow> Inl e | Inr s \<Rightarrow> Inr s) = v"
  by (simp split: sum.split)

lemma zeros44: "replicate (44 + k) (0::byte) =
  [0,0,0,0, 0,0,0,0, 0,0,0,0, 0,0,0,0, 0,0,0,0, 0,0,0,0, 0,0,0,0, 0,0,0,0, 0,0,0,0, 0,0,0,0, 0,0,0,0] @ replicate k 0"
  by (simp add: replicate_add eval_nat_numeral)

lemma header_written:
  fixes c r b d :: int
  shows "statements
           [ \<lambda>view. writeString view 0 ''RIFF'',
             \<lambda>view. setUint32 view 4 c,
             \<lambda>view. writeString view 8 ''WAVE'',
             \<lambda>view. writeString view 12 ''fmt '',
             \<lambda>view. setUint32 view 16 16,
             \<lambda>view. setUint16 view 20 1,
             \<lambda>view. setUint16 view 22 1,
             \<lambda>view. setUint32 view 24 r,
             \<lambda>view. setUint32 view 28 b,
             \<lambda>view. setUint16 view 32 2,
             \<lambda>view. setUint16 view 34 16,
             \<lambda>view. writeString view 36 ''data'',
             \<lambda>view. setUint32 view 40 d,
             final ]
           (replicate (44 + k) 0) =
         final ([0x52, 0x49, 0x46, 0x46,
           ucast (word_of_int c :: 32 word), ucast (drop_bit 8 (word_of_int c :: 32 word)),
           ucast (drop_bit 16 (word_of_int c :: 32 word)), ucast (drop_bit 24 (word_of_int c :: 32 word)),
           0x57, 0x41, 0x56, 0x45, 0x66, 0x6D, 0x74, 0x20,
           16, 0, 0, 0, 1, 0, 1, 0,
           ucast (word_of_int r :: 32 word), ucast (drop_bit 8 (word_of_int r :: 32 word)),
           ucast (drop_bit 16 (word_of_int r :: 32 word)), ucast (drop_bit 24 (word_of_int r :: 32 word)),
           ucast (word_of_int b :: 32 word), ucast (drop_bit 8 (word_of_int b :: 32 word)),
           ucast (drop_bit 16 (word_of_int b :: 32 word)), ucast (drop_bit 24 (word_of_int b :: 32 word)),
           2, 0, 16, 0,
           0x64, 0x61, 0x74, 0x61,
           ucast (word_of_int d :: 32 word), ucast (drop_bit 8 (word_of_int d :: 32 word)),
           ucast (drop_bit 16 (word_of_int d :: 32 word)), ucast (drop_bit 24 (word_of_int d :: 32 word))]
          @ replicate k 0)"
  unfolding zeros44
  by (simp add: setUint32_def setUint16_def store16_def setUint8_def Let_def list_update_append
      list_update_Cons_numeral)
    (simp split: sum.split)

lemma encodeWAV_unfold:
  "encodeWAV samples sampleRate =
     writeSamples
       ([0x52, 0x49, 0x46, 0x46,
         ucast (word_of_int (36 + int (length samples) * 2) :: 32 word),
         ucast (drop_bit 8 (word_of_int (36 + int (length samples) * 2) :: 32 word)),
         ucast (drop_bit 16 (word_of_int (36 + int (length samples) * 2) :: 32 word)),
         ucast (drop_bit 24 (word_of_int (36 + int (length samples) * 2) :: 32 word)),
         0x57, 0x41, 0x56, 0x45, 0x66, 0x6D, 0x74, 0x20,
         16, 0, 0, 0, 1, 0, 1, 0,
         ucast (word_of_int sampleRate :: 32 word),
         ucast (drop_bit 8 (word_of_int sampleRate :: 32 word)),
         ucast (drop_bit 16 (word_of_int sampleRate :: 32 word)),
         ucast (drop_bit 24 (word_of_int sampleRate :: 32 word)),
         ucast (word_of_int (sampleRate * 2) :: 32 word),
         ucast (drop_bit 8 (word_of_int (sampleRate * 2) :: 32 word)),
         ucast (drop_bit 16 (word_of_int (sampleRate * 2) :: 32 word)),
         ucast (drop_bit 24 (word_of_int (sampleRate * 2) :: 32 word)),
         2, 0, 16, 0,
         0x64, 0x61, 0x74, 0x61,
         ucast (word_of_int (int (length samples) * 2) :: 32 word),
         ucast (drop_bit 8 (word_of_int (int (length samples) * 2) :: 32 word)),
         ucast (drop_bit 16 (word_of_int (int (length samples) * 2) :: 32 word)),
         ucast (drop_bit 24 (word_of_int (int (length samples) * 2) :: 32 word))]
        @ replicate (2 * length samples) 0)
       44 samples"
proof -
  have n: "nat (44 + int (length samples) * (16 div 8)) = 44 + 2 * length samples"
    by simp
  have e: "encodeWAV samples sampleRate =
    statements
           [ \<lambda>view. writeString view 0 ''RIFF'',
             \<lambda>view. setUint32 view 4 (36 + int (length samples) * 2),
             \<lambda>view. writeString view 8 ''WAVE'',
             \<lambda>view. writeString view 12 ''fmt '',
             \<lambda>view. setUint32 view 16 16,
             \<lambda>view. setUint16 view 20 1,
             \<lambda>view. setUint16 view 22 1,
             \<lambda>view. setUint32 view 24 sampleRate,
             \<lambda>view. setUint32 view 28 (sampleRate * 2),
             \<lambda>view. setUint16 view 32 2,
             \<lambda>view. setUint16 view 34 16,
             \<lambda>view. writeString view 36 ''data'',
             \<lambda>view. setUint32 view 40 (int (length samples) * 2),
             \<lambda>view. writeSamples view 44 samples ]
           (replicate (44 + 2 * length samples) 0)"
    unfolding encodeWAV_def Let_def n
    by (simp del: statements.simps writeString.simps)
  show ?thesis
    unfolding e by (rule header_written)
qed

lemma encodeWAV_header_fields:
  "\<exists>buf. encodeWAV samples sampleRate = Inr buf \<and>
     length buf = 44 + 2 * length samples \<and>
     tagAt buf 0 = map of_char ''RIFF'' \<and>
     unat (getUint32 buf 4) = (36 + 2 * length samples) mod 2 ^ 32 \<and>
     tagAt buf 8 = map of_char ''WAVE'' \<and>
     tagAt buf 12 = map of_char ''fmt '' \<and>
     unat (getUint32 buf 16) = 16 \<and>
     unat (getUint16 buf 20) = 1 \<and>
     unat (getUint16 buf 22) = 1 \<and>
     uint (getUint32 buf 24) = sampleRate mod 2 ^ 32 \<and>
     uint (getUint32 buf 28) = (sampleRate * 2) mod 2 ^ 32 \<and>
     unat (getUint16 buf 32) = 2 \<and>
     unat (getUint16 buf 34) = 16 \<and>
     tagAt buf 36 = map of_char ''data'' \<and>
     unat (getUint32 buf 40) = (2 * length samples) mod 2 ^ 32"
proof -
  define c where "c = (word_of_int (36 + int (length samples) * 2) :: 32 word)"
  define r where "r = (word_of_int sampleRate :: 32 word)"
  define b where "b = (word_of_int (sampleRate * 2) :: 32 word)"
  define d where "d = (word_of_int (int (length samples) * 2) :: 32 word)"
  define H :: "byte list" where "H =
       [0x52, 0x49, 0x46, 0x46,
         ucast c, ucast (drop_bit 8 c), ucast (drop_bit 16 c), ucast (drop_bit 24 c),
         0x57, 0x41, 0x56, 0x45, 0x66, 0x6D, 0x74, 0x20,
         16, 0, 0, 0, 1, 0, 1, 0,
         ucast r, ucast (drop_bit 8 r), ucast (drop_bit 16 r), ucast (drop_bit 24 r),
         ucast b, ucast (drop_bit 8 b), ucast (drop_bit 16 b), ucast (drop_bit 24 b),
         2, 0, 16, 0,
         0x64, 0x61, 0x74, 0x61,
         ucast d, ucast (drop_bit 8 d), ucast (drop_bit 16 d), ucast (drop_bit 24 d)]"
  have lenH: "length H = 44" by (simp add: H_def)
  have e: "encodeWAV samples sampleRate =
             writeSamples (H @ replicate (2 * length samples) 0) 44 samples"
    unfolding encodeWAV_unfold H_def c_def r_def b_def d_def ..
  have "44 + 2 * length samples \<le> length (H @ replicate (2 * length samples) 0)"
    by (simp add: lenH)
  from writeSamples_ok [OF this] obtain buf where
    w: "writeSamples (H @ replicate (2 * length samples) 0) 44 samples = Inr buf" and
    l: "length buf = length (H @ replicate (2 * length samples) 0)" and
    t: "take 44 buf = take 44 (H @ replicate (2 * length samples) 0)"
    by blast
  have tH: "take 44 buf = H" using t lenH by simp
  have nth: "\<And>k. k < 44 \<Longrightarrow> buf ! k = H ! k"
  proof -
    fix k :: nat assume "k < 44"
    then have "buf ! k = take 44 buf ! k" by simp
    then show "buf ! k = H ! k" using tH by simp
  qed
  have tag: "\<And>k. k + 4 \<le> 44 \<Longrightarrow> tagAt buf k = take 4 (drop k H)"
  proof -
    fix k :: nat assume k: "k + 4 \<le> 44"
    have "take 4 (drop k buf) = take 4 (take (44 - k) (drop k buf))"
      using k by (simp add: min_def)
    also have "\<dots> = take 4 (drop k (take 44 buf))"
      using k by (simp add: drop_take)
    finally show "tagAt buf k = take 4 (drop k H)" using tH by (simp add: tagAt_def)
  qed
  have c32: "getUint32 buf 4 = c"
    by (simp add: getUint32_def nth H_def le32_roundtrip)
  have r32: "getUint32 buf 24 = r"
    by (simp add: getUint32_def nth H_def le32_roundtrip)
  have b32: "getUint32 buf 28 = b"
    by (simp add: getUint32_def nth H_def le32_roundtrip)
  have d32: "getUint32 buf 40 = d"
    by (simp add: getUint32_def nth H_def le32_roundtrip)
  have f1: "unat (getUint32 buf 4) = (36 + 2 * length samples) mod 2 ^ 32"
  proof -
    have "c = word_of_nat (36 + 2 * length samples)" by (simp add: c_def)
    then show ?thesis unfolding c32 by (simp only: unat_of_nat) simp
  qed
  have f2: "unat (getUint32 buf 40) = (2 * length samples) mod 2 ^ 32"
  proof -
    have "d = word_of_nat (2 * length samples)" by (simp add: d_def)
    then show ?thesis unfolding d32 by (simp only: unat_of_nat) simp
  qed
  have f3: "uint (getUint32 buf 24) = sampleRate mod 2 ^ 32"
    unfolding r32 r_def by (simp only: uint_word_of_int) simp
  have f4: "uint (getUint32 buf 28) = (sampleRate * 2) mod 2 ^ 32"
    unfolding b32 b_def by (simp only: uint_word_of_int) simp
  have f5: "getUint32 buf 16 = 16"
    by (simp add: getUint32_def nth H_def)
  have f6: "getUint16 buf 20 = 1" "getUint16 buf 22 = 1" "getUint16 buf 32 = 2" "getUint16 buf 34 = 16"
    by (simp_all add: getUint16_def nth H_def)
  have f7: "tagAt buf 0 = [0x52, 0x49, 0x46, 0x46]" "tagAt buf 8 = [0x57, 0x41, 0x56, 0x45]"
     "tagAt buf 12 = [0x66, 0x6D, 0x74, 0x20]" "tagAt buf 36 = [0x64, 0x61, 0x74, 0x61]"
    by (simp_all add: tag H_def)
  have len: "length buf = 44 + 2 * length samples" using l lenH by simp
  show ?thesis
    using e w len f1 f2 f3 f4 f5 f6 f7 by simp
qed

lemma replicate_numeral_Cons:
  "replicate (numeral k) v = v # replicate (pred_numeral k) v"
  by (simp add: numeral_eq_Suc)

lemma js_truncate_bounds:
  assumes "- 32768 \<le> v" "v \<le> 32767"
  shows "- 32768 \<le> js_truncate v" "js_truncate v \<le> 32767"
proof -
  show "- 32768 \<le> js_truncate v"
  proof (cases "v < 0")
    case True
    have "- 32768 \<le> \<lceil>v\<rceil>" using assms(1) by (simp add: le_ceiling_iff)
    then show ?thesis using True by (simp add: js_truncate_def)
  next
    case False
    then have "0 \<le> \<lfloor>v\<rfloor>" by simp
    then show ?thesis using False by (simp add: js_truncate_def)
  qed
  show "js_truncate v \<le> 32767"
  proof (cases "v < 0")
    case True
    then have "\<lceil>v\<rceil> \<le> 0" by (simp add: ceiling_le_iff)
    then show ?thesis using True by (simp add: js_truncate_def)
  next
    case False
    have "\<lfloor>v\<rfloor> \<le> 32767" using assms(2) by (simp add: floor_le_iff)
    then show ?thesis using False by (simp add: js_truncate_def)
  qed
qed

lemma sint_ToInt16:
  assumes "- 32768 \<le> v" "v \<le> 32767"
  shows "sint (ToInt16 (Fin v)) = js_truncate v"
proof -
  have "signed_take_bit 15 (js_truncate v) = js_truncate v"
    using js_truncate_bounds [OF assms] by (intro signed_take_bit_int_eq_self) simp_all
  then show ?thesis by (simp add: sint_sbintrunc')
qed

lemma sint_intSample:
  "sint (ToInt16 (let sample = Math_max_neg1 (Math_min_1 s) in
                  if jsLt sample 0 then jsTimes sample 0x8000 else jsTimes sample 0x7FFF)) =
     (case s of
        Fin v \<Rightarrow> js_truncate (max (- 1) (min 1 v) * (if v < 0 then 32768 else 32767))
      | PosInf \<Rightarrow> 32767
      | NegInf \<Rightarrow> - 32768
      | NaN \<Rightarrow> 0)"
proof (cases s)
  case (Fin v)
  show ?thesis
  proof (cases "v < 0")
    case True
    have "sint (ToInt16 (Fin (max (- 1) (min 1 v) * 32768))) =
            js_truncate (max (- 1) (min 1 v) * 32768)"
      using True by (intro sint_ToInt16) auto
    then show ?thesis using Fin True by (simp add: Let_def min_less_iff_disj)
  next
    case False
    have "sint (ToInt16 (Fin (max (- 1) (min 1 v) * 32767))) =
            js_truncate (max (- 1) (min 1 v) * 32767)"
      using False by (intro sint_ToInt16) auto
    then show ?thesis using Fin False by (simp add: Let_def min_less_iff_disj)
  qed
next
  case PosInf
  then show ?thesis by (simp add: js_truncate_def)
next
  case NegInf
  then show ?thesis by (simp add: js_truncate_def)
next
  case NaN
  then show ?thesis by simp
qed

lemma encodeWAV_unfold_ex:
  "\<exists>H. length H = 44 \<and>
     encodeWAV samples sampleRate =
       writeSamples (H @ replicate (2 * length samples) 0) 44 samples"
  by (rule exI, rule conjI [OF _ encodeWAV_unfold]) simp

lemma encodeWAV_sample_words:
  assumes i: "i < length samples"
  shows "\<exists>buf. encodeWAV samples sampleRate = Inr buf \<and>
     length buf = 44 + 2 * length samples \<and>
     getInt16 buf (44 + 2 * i) =
       (case samples ! i of
          Fin s \<Rightarrow> js_truncate (max (- 1) (min 1 s) * (if s < 0 then 32768 else 32767))
        | PosInf \<Rightarrow> 32767
        | NegInf \<Rightarrow> - 32768
        | NaN \<Rightarrow> 0)"
proof -
  obtain H :: "byte list" where lenH: "length H = 44" and
    e: "encodeWAV samples sampleRate =
          writeSamples (H @ replicate (2 * length samples) 0) 44 samples"
    using encodeWAV_unfold_ex [of samples sampleRate] by blast
  have "44 + 2 * length samples \<le> length (H @ replicate (2 * length samples) 0)"
    by (simp add: lenH)
  from writeSamples_ok [OF this] obtain buf where
    w: "writeSamples (H @ replicate (2 * length samples) 0) 44 samples = Inr buf" and
    l: "length buf = length (H @ replicate (2 * length samples) 0)" and
    n: "\<forall>i < length samples.
        getUint16 buf (44 + 2 * i) =
          ToInt16 (let sample = Math_max_neg1 (Math_min_1 (samples ! i)) in
                   if jsLt sample 0 then jsTimes sample 0x8000 else jsTimes sample 0x7FFF)"
    by blast
  have "getInt16 buf (44 + 2 * i) =
       (case samples ! i of
          Fin s \<Rightarrow> js_truncate (max (- 1) (min 1 s) * (if s < 0 then 32768 else 32767))
        | PosInf \<Rightarrow> 32767
        | NegInf \<Rightarrow> - 32768
        | NaN \<Rightarrow> 0)"
    using n i unfolding getInt16_def by (simp only: sint_intSample)
  then show ?thesis using e w l lenH by simp
qed

lemma encodeWAV_empty:
  "encodeWAV [] 44100 =
   Inr [0x52, 0x49, 0x46, 0x46, 0x24, 0, 0, 0, 0x57, 0x41, 0x56, 0x45, 0x66, 0x6D, 0x74, 0x20,
        16, 0, 0, 0, 1, 0, 1, 0, 0x44, 0xAC, 0, 0, 0x88, 0x58, 1, 0, 2, 0, 16, 0,
        0x64, 0x61, 0x74, 0x61, 0, 0, 0, 0]"
  by (simp add: encodeWAV_unfold)

lemma encodeWAV_one_minus_one:
  "encodeWAV [Fin 1, Fin (- 1)] 44100 =
   Inr [0x52, 0x49, 0x46, 0x46, 0x28, 0, 0, 0, 0x57, 0x41, 0x56, 0x45, 0x66, 0x6D, 0x74, 0x20,
        16, 0, 0, 0, 1, 0, 1, 0, 0x44, 0xAC, 0, 0, 0x88, 0x58, 1, 0, 2, 0, 16, 0,
        0x64, 0x61, 0x74, 0x61, 4, 0, 0, 0, 0xFF, 0x7F, 0x00, 0x80]"
  by (simp add: encodeWAV_unfold setInt16_def store16_def js_truncate_def list_update_Cons_numeral
      replicate_numeral_Cons)

lemma encodeWAV_half:
  "getInt16 (projr (encodeWAV [Fin (1 / 2)] 44100)) 44 = 16383"
  by (simp add: encodeWAV_unfold setInt16_def store16_def js_truncate_def list_update_Cons_numeral
     replicate_numeral_Cons getInt16_def getUint16_def)

text \<open>
  C3. For every sample array of length \<open>n\<close> and every sample rate, \<open>encodeWAV\<close> returns a
  buffer of exactly \<open>44 + 2n\<close> bytes whose little-endian header fields are those of the
  RIFF/WAVE table: \<open>RIFF\<close> at 0, ChunkSize \<open>36 + 2n\<close> at 4, \<open>WAVE\<close> at 8, \<open>fmt\<close> and a
  space at 12, Subchunk1Size 16, AudioFormat 1, NumChannels 1, SampleRate at 24, ByteRate
  \<open>SampleRate * 2\<close> at 28, BlockAlign 2, BitsPerSample 16, \<open>data\<close> at 36 and
  Subchunk2Size \<open>2n\<close> at 40. A four-byte field holds its value modulo \<open>2^32\<close>; that is
  the value itself for the supported rates 44100 and 22050 and for every buffer below
  4 GiB. In particular \<open>encodeWAV([], 44100)\<close> is the 44 bytes of the header alone, with
  ChunkSize 36 (\<open>24 00 00 00\<close>) and Subchunk2Size 0.
\<close>

theorem encodeWAV_header:
  "(\<exists>buf. encodeWAV samples sampleRate = Inr buf \<and>
     length buf = 44 + 2 * length samples \<and>
     tagAt buf 0 = map of_char ''RIFF'' \<and>
     unat (getUint32 buf 4) = (36 + 2 * length samples) mod 2 ^ 32 \<and>
     tagAt buf 8 = map of_char ''WAVE'' \<and>
     tagAt buf 12 = map of_char ''fmt '' \<and>
     unat (getUint32 buf 16) = 16 \<and>
     unat (getUint16 buf 20) = 1 \<and>
     unat (getUint16 buf 22) = 1 \<and>
     uint (getUint32 buf 24) = sampleRate mod 2 ^ 32 \<and>
     uint (getUint32 buf 28) = (sampleRate * 2) mod 2 ^ 32 \<and>
     unat (getUint16 buf 32) = 2 \<and>
     unat (getUint16 buf 34) = 16 \<and>
     tagAt buf 36 = map of_char ''data'' \<and>
     unat (getUint32 buf 40) = (2 * length samples) mod 2 ^ 32 \<and>
     (36 + 2 * length samples < 2 ^ 32 \<longrightarrow>
        unat (getUint32 buf 4) = 36 + 2 * length samples \<and>
        unat (getUint32 buf 40) = 2 * length samples) \<and>
     (sampleRate = 44100 \<or> sampleRate = 22050 \<longrightarrow>
        uint (getUint32 buf 24) = sampleRate \<and>
        uint (getUint32 buf 28) = sampleRate * 2)) \<and>
   encodeWAV [] 44100 =
     Inr [0x52, 0x49, 0x46, 0x46, 0x24, 0, 0, 0, 0x57, 0x41, 0x56, 0x45, 0x66, 0x6D, 0x74, 0x20,
          16, 0, 0, 0, 1, 0, 1, 0, 0x44, 0xAC, 0, 0, 0x88, 0x58, 1, 0, 2, 0, 16, 0,
          0x64, 0x61, 0x74, 0x61, 0, 0, 0, 0]"
proof -
  obtain buf where b: "encodeWAV samples sampleRate = Inr buf"
     "length buf = 44 + 2 * length samples"
     "tagAt buf 0 = map of_char ''RIFF''"
     "unat (getUint32 buf 4) = (36 + 2 * length samples) mod 2 ^ 32"
     "tagAt buf 8 = map of_char ''WAVE''"
     "tagAt buf 12 = map of_char ''fmt ''"
     "unat (getUint32 buf 16) = 16"
     "unat (getUint16 buf 20) = 1"
     "unat (getUint16 buf 22) = 1"
     "uint (getUint32 buf 24) = sampleRate mod 2 ^ 32"
     "uint (getUint32 buf 28) = (sampleRate * 2) mod 2 ^ 32"
     "unat (getUint16 buf 32) = 2"
     "unat (getUint16 buf 34) = 16"
     "tagAt buf 36 = map of_char ''data''"
     "unat (getUint32 buf 40) = (2 * length samples) mod 2 ^ 32"
    using encodeWAV_header_fields [of samples sampleRate] by blast
  have small: "36 + 2 * length samples < 2 ^ 32 \<longrightarrow>
        unat (getUint32 buf 4) = 36 + 2 * length samples \<and>
        unat (getUint32 buf 40) = 2 * length samples"
    unfolding b(4) b(15) by simp
  have rate: "sampleRate = 44100 \<or> sampleRate = 22050 \<longrightarrow>
        uint (getUint32 buf 24) = sampleRate \<and> uint (getUint32 buf 28) = sampleRate * 2"
    unfolding b(10) b(11) by auto
  show ?thesis
    using b small rate encodeWAV_empty by (intro conjI exI [of _ buf])
qed

theorem encodeWAV_header_witness:
  "36 + 2 * length [Fin 1, Fin (- 1), Fin (1 / 2)] < (2 :: nat) ^ 32 \<and>
   (\<exists>buf. encodeWAV [Fin 1, Fin (- 1), Fin (1 / 2)] 22050 = Inr buf \<and>
      length buf = 50 \<and>
      unat (getUint32 buf 4) = 42 \<and>
      uint (getUint32 buf 24) = 22050 \<and>
      uint (getUint32 buf 28) = 44100 \<and>
      unat (getUint32 buf 40) = 6)"
  using encodeWAV_header [of "[Fin 1, Fin (- 1), Fin (1 / 2)]" 22050]
  by auto

text \<open>
  C2, as the code has it. For every input sample, \<open>encodeWAV\<close> stores at that sample's
  position in the data section the signed 16-bit little-endian integer obtained by
  truncating \<open>clamp(s,-1,1) * (s<0 ? 32768 : 32767)\<close> towards zero (a \<open>NaN\<close> sample is
  stored as 0); in particular \<open>encodeWAV([1.0, -1.0], 44100)\<close> produces 48 bytes whose
  two sample words are the bytes \<open>FF 7F\<close> (32767) followed by \<open>00 80\<close> (-32768).
\<close>

theorem encodeWAV_samples:
  "i < length samples \<Longrightarrow>
   (\<exists>buf. encodeWAV samples sampleRate = Inr buf \<and>
      length buf = 44 + 2 * length samples \<and>
      getInt16 buf (44 + 2 * i) =
        (case samples ! i of
           Fin s \<Rightarrow> js_truncate (max (- 1) (min 1 s) * (if s < 0 then 32768 else 32767))
         | PosInf \<Rightarrow> 32767
         | NegInf \<Rightarrow> - 32768
         | NaN \<Rightarrow> 0)) \<and>
   encodeWAV [Fin 1, Fin (- 1)] 44100 =
     Inr [0x52, 0x49, 0x46, 0x46, 0x28, 0, 0, 0, 0x57, 0x41, 0x56, 0x45, 0x66, 0x6D, 0x74, 0x20,
          16, 0, 0, 0, 1, 0, 1, 0, 0x44, 0xAC, 0, 0, 0x88, 0x58, 1, 0, 2, 0, 16, 0,
          0x64, 0x61, 0x74, 0x61, 4, 0, 0, 0, 0xFF, 0x7F, 0x00, 0x80]"
  using encodeWAV_sample_words [of i samples sampleRate] encodeWAV_one_minus_one
  by (intro conjI)

theorem encodeWAV_samples_witness:
  "1 < length [Fin (1 / 2), Fin (- 1 / 3), NaN] \<and>
   (\<exists>buf. encodeWAV [Fin (1 / 2), Fin (- 1 / 3), NaN] 22050 = Inr buf \<and> length buf = 50 \<and>
      getInt16 buf 46 = - 10922)"
  using encodeWAV_samples [of 1 "[Fin (1 / 2), Fin (- 1 / 3), NaN]" 22050]
  by (simp add: js_truncate_def)

text \<open>
  C2, as stated, fails twice. The two sample words of \<open>encodeWAV([1.0, -1.0], 44100)\<close>
  are the bytes \<open>FF 7F\<close> and \<open>00 80\<close>, low byte first, not \<open>7F FF\<close> and \<open>00 80\<close>. And
  the sample 0.5 is stored as 16383, the product 16383.5 truncated, where rounding gives
  16384.
\<close>

theorem encodeWAV_sample_counterexample:
  "drop 44 (projr (encodeWAV [Fin 1, Fin (- 1)] 44100)) = [0xFF, 0x7F, 0x00, 0x80] \<and>
   drop 44 (projr (encodeWAV [Fin 1, Fin (- 1)] 44100)) \<noteq> [0x7F, 0xFF, 0x00, 0x80] \<and>
   getInt16 (projr (encodeWAV [Fin (1 / 2)] 44100)) 44 = 16383 \<and>
   spec_sample (1 / 2) = 16384 \<and>
   getInt16 (projr (encodeWAV [Fin (1 / 2)] 44100)) 44 \<noteq> spec_sample (1 / 2)"
  by (simp add: encodeWAV_one_minus_one encodeWAV_half spec_sample_def Math_round_def)

section \<open>Properties of removeBackground\<close>

lemma removeBackgroundLoop_Cons:
  "removeBackgroundLoop targetColor tol (r # g # b # a # data) =
     r # g # b # storedAlpha targetColor tol r g b a #
     removeBackgroundLoop targetColor tol data"
  by (simp only: removeBackgroundLoop.simps storedAlpha_def Let_def)

lemma removeBackgroundLoop_length:
  "length (removeBackgroundLoop targetColor tol data) = length data"
proof (induction targetColor tol data rule: removeBackgroundLoop.induct)
  case (1 targetColor tol r g b a data)
  from "1.IH" [OF refl refl refl] show ?case by (simp only: removeBackgroundLoop_Cons) simp
qed simp_all

lemma removeBackgroundLoop_rgb:
  "j < length data \<Longrightarrow> j mod 4 \<noteq> 3 \<Longrightarrow>
   removeBackgroundLoop targetColor tol data ! j = data ! j"
proof (induction targetColor tol data arbitrary: j rule: removeBackgroundLoop.induct)
  case (1 targetColor tol r g b a data)
  show ?case
  proof (cases "j < 4")
    case True
    then consider "j = 0" | "j = 1" | "j = 2" | "j = 3" by linarith
    then show ?thesis using "1.prems"
      by cases (simp_all only: removeBackgroundLoop_Cons, simp_all)
  next
    case False
    then obtain k where k: "j = 4 + k" using le_Suc_ex by (metis not_less)
    then have "k < length data" "k mod 4 \<noteq> 3" using "1.prems" by simp_all
    then have "removeBackgroundLoop targetColor tol data ! k = data ! k"
      by (rule "1.IH" [OF refl refl refl])
    then show ?thesis using k by (simp only: removeBackgroundLoop_Cons) (simp add: nth_Cons')
  qed
qed simp_all

lemma removeBackgroundLoop_alpha:
  "4 * p + 4 \<le> length data \<Longrightarrow>
   removeBackgroundLoop targetColor tol data ! (4 * p + 3) =
     storedAlpha targetColor tol
       (data ! (4 * p)) (data ! (4 * p + 1)) (data ! (4 * p + 2)) (data ! (4 * p + 3))"
proof (induction targetColor tol data arbitrary: p rule: removeBackgroundLoop.induct)
  case (1 targetColor tol r g b a data)
  show ?case
  proof (cases p)
    case 0
    then show ?thesis by (simp only: removeBackgroundLoop_Cons) simp
  next
    case (Suc q)
    then have "4 * q + 4 \<le> length data" using "1.prems" by simp
    from "1.IH" [OF refl refl refl this] show ?thesis
      using Suc by (simp only: removeBackgroundLoop_Cons) (simp add: nth_Cons' add.commute)
  qed
qed simp_all

lemma toUint8Clamped_uint: "0 \<le> v \<Longrightarrow> v \<le> 255 \<Longrightarrow> uint (toUint8Clamped v) = v"
  by (simp add: toUint8Clamped_def uint_word_of_int)

lemma ramp_range:
  fixes distance threshold :: real
  assumes "threshold * 0.7 < distance" "distance \<le> threshold"
  shows "0 < (distance - threshold * 0.7) / (threshold * 0.3)"
    and "(distance - threshold * 0.7) / (threshold * 0.3) \<le> 1"
proof -
  have t: "0 < threshold" using assms by (cases "0 < threshold") (auto simp: not_less mult_le_cancel_left)
  show "0 < (distance - threshold * 0.7) / (threshold * 0.3)" using assms t by simp
  have "distance - threshold * 0.7 \<le> threshold * 0.3" using assms by simp
  then show "(distance - threshold * 0.7) / (threshold * 0.3) \<le> 1" using t by simp
qed

lemma Math_round_ramp:
  fixes q :: real
  assumes "0 < q" "q \<le> 1"
  shows "0 \<le> Math_round (255 * q)" "Math_round (255 * q) \<le> 255"
proof -
  have "0 \<le> 255 * q + 1 / 2" using assms by simp
  then show "0 \<le> Math_round (255 * q)" unfolding Math_round_def by simp
  have "255 * q + 1 / 2 < 256" using assms by simp
  then have "\<lfloor>255 * q + 1 / 2\<rfloor> < 256" by (simp add: floor_less_iff)
  then show "Math_round (255 * q) \<le> 255" unfolding Math_round_def by simp
qed

lemma throughCanvas_length: "length (throughCanvas canvas data) = length data"
  by (induction canvas data rule: throughCanvas.induct) simp_all

lemma throughCanvas_alpha:
  "4 * p + 4 \<le> length data \<Longrightarrow> throughCanvas canvas data ! (4 * p + 3) = data ! (4 * p + 3)"
proof (induction canvas data arbitrary: p rule: throughCanvas.induct)
  case (1 canvas r g b a data)
  show ?case
  proof (cases p)
    case 0
    then show ?thesis by simp
  next
    case (Suc p')
    then have "4 * p' + 4 \<le> length data" using "1.prems" by simp
    from "1.IH" [OF this] show ?thesis
      using Suc by (simp add: nth_Cons' add.commute)
  qed
qed simp_all

lemma throughCanvas_rgb:
  "4 * p + 4 \<le> length data \<Longrightarrow> k < 3 \<Longrightarrow>
   throughCanvas canvas data ! (4 * p + k) =
     readBack canvas (data ! (4 * p + k)) (data ! (4 * p + 3))"
proof (induction canvas data arbitrary: p rule: throughCanvas.induct)
  case (1 canvas r g b a data)
  show ?case
  proof (cases p)
    case 0
    from \<open>k < 3\<close> consider "k = 0" | "k = 1" | "k = 2" by linarith
    then show ?thesis using 0 by cases simp_all
  next
    case (Suc p')
    then have "4 * p' + 4 \<le> length data" using "1.prems" by simp
    from "1.IH" [OF this \<open>k < 3\<close>] show ?thesis
      using Suc by (simp add: nth_Cons' add.commute add.left_commute)
  qed
qed simp_all

lemma readBack_opaque: "readBack canvas c 255 = c"
  by (simp add: readBack_def)

lemma readBack_transparent: "readBack canvas c 0 = 0"
  by (simp add: readBack_def)

lemma alpha_at:
  assumes "4 * p + 4 \<le> length (pixels img)"
  shows "pixels (removeBackground canvas img targetColor tol) ! (4 * p + 3) =
     (if distanceAt targetColor (throughCanvas canvas (pixels img)) p \<le> tol / 100 * 441
      then toUint8Clamped
             (if distanceAt targetColor (throughCanvas canvas (pixels img)) p
                   \<le> tol / 100 * 441 * 0.7 then 0
              else Math_round (255 * ((distanceAt targetColor (throughCanvas canvas (pixels img)) p
                                        - tol / 100 * 441 * 0.7) /
                                       (tol / 100 * 441 * 0.3))))
      else pixels img ! (4 * p + 3))"
proof -
  define data where "data = throughCanvas canvas (pixels img)"
  have len: "4 * p + 4 \<le> length data"
    using assms by (simp add: data_def throughCanvas_length)
  have len': "4 * p + 4 \<le> length (removeBackgroundLoop targetColor tol data)"
    using len by (simp add: removeBackgroundLoop_length)
  have "pixels (removeBackground canvas img targetColor tol) ! (4 * p + 3) =
        removeBackgroundLoop targetColor tol data ! (4 * p + 3)"
    using throughCanvas_alpha [OF len'] by (simp add: removeBackground_def Let_def data_def)
  also have "\<dots> = storedAlpha targetColor tol
          (data ! (4 * p)) (data ! (4 * p + 1)) (data ! (4 * p + 2)) (data ! (4 * p + 3))"
    by (rule removeBackgroundLoop_alpha [OF len])
  finally have "pixels (removeBackground canvas img targetColor tol) ! (4 * p + 3) =
        storedAlpha targetColor tol
          (data ! (4 * p)) (data ! (4 * p + 1)) (data ! (4 * p + 2)) (pixels img ! (4 * p + 3))"
    using throughCanvas_alpha [OF assms, of canvas] by (simp add: data_def)
  then show ?thesis
    unfolding data_def by (simp only: storedAlpha_def distanceAt_def Let_def)
qed

lemma rgb_at:
  assumes "4 * p + 4 \<le> length (pixels img)" "k < 3"
  shows "pixels (removeBackground canvas img targetColor tol) ! (4 * p + k) =
     readBack canvas (throughCanvas canvas (pixels img) ! (4 * p + k))
       (pixels (removeBackground canvas img targetColor tol) ! (4 * p + 3))"
proof -
  define data where "data = throughCanvas canvas (pixels img)"
  define data' where "data' = removeBackgroundLoop targetColor tol data"
  have len: "4 * p + 4 \<le> length data"
    using assms by (simp add: data_def throughCanvas_length)
  have len': "4 * p + 4 \<le> length data'"
    using len by (simp add: data'_def removeBackgroundLoop_length)
  have out: "pixels (removeBackground canvas img targetColor tol) = throughCanvas canvas data'"
    by (simp add: removeBackground_def Let_def data_def data'_def)
  have "(4 * p + k) mod 4 = k" using assms(2) by (simp add: mod_add_left_eq [symmetric] mult.commute)
  then have "(4 * p + k) mod 4 \<noteq> 3" using assms(2) by simp
  moreover have "4 * p + k < length data" using len assms(2) by simp
  ultimately have "data' ! (4 * p + k) = data ! (4 * p + k)"
    unfolding data'_def by (intro removeBackgroundLoop_rgb)
  then show ?thesis
    unfolding out data_def [symmetric]
    using throughCanvas_rgb [OF len' assms(2), of canvas] throughCanvas_alpha [OF len', of canvas]
    by simp
qed

lemma opaque_at:
  assumes "4 * p + 4 \<le> length (pixels img)" "k < 3" "pixels img ! (4 * p + 3) = 255"
  shows "throughCanvas canvas (pixels img) ! (4 * p + k) = pixels img ! (4 * p + k)"
  using throughCanvas_rgb [OF assms(1,2), of canvas] assms(3) by (simp add: readBack_opaque)

lemma distanceAt_nonneg: "0 \<le> distanceAt targetColor data p"
  by (simp add: distanceAt_def)

lemma sqrt_square_int: "0 \<le> y \<Longrightarrow> y * y = v \<Longrightarrow> sqrt v = (y::real)"
  by (rule real_sqrt_unique) (simp_all add: power2_eq_square)

text \<open>
  C4, as the code has it. In \<open>removeBackground\<close>, with
  \<open>threshold = tolerancePercent/100 * 441\<close> (the constant of the code is 441, not
  441.67) and the distance taken on the bytes \<open>getImageData\<close> reads, every pixel whose
  Euclidean RGB distance to the target color is at most \<open>0.7 * threshold\<close> ends fully
  transparent, every pixel with distance in the band from \<open>0.7 * threshold\<close> (exclusive) to
  \<open>threshold\<close> (inclusive) gets the alpha
  \<open>round(255 * (distance - 0.7 * threshold) / (0.3 * threshold))\<close>, which runs linearly from 0
  to 255 across the band, and every pixel with distance above \<open>threshold\<close> is untouched: it
  keeps its alpha, its four bytes in the result are those the canvas gives for the bytes
  read, and they are the four bytes of the image when the pixel is opaque.
\<close>

theorem removeBackground_bands:
  "4 * p + 4 \<le> length (pixels img) \<Longrightarrow>
   (let data = throughCanvas canvas (pixels img);
        distance = distanceAt targetColor data p;
        threshold = tol / 100 * 441;
        out = pixels (removeBackground canvas img targetColor tol)
    in (distance \<le> 0.7 * threshold \<longrightarrow> out ! (4 * p + 3) = 0) \<and>
       (0.7 * threshold < distance \<and> distance \<le> threshold \<longrightarrow>
          uint (out ! (4 * p + 3)) =
            Math_round (255 * ((distance - 0.7 * threshold) / (0.3 * threshold))) \<and>
          0 \<le> uint (out ! (4 * p + 3)) \<and> uint (out ! (4 * p + 3)) \<le> 255) \<and>
       (threshold < distance \<longrightarrow>
          out ! (4 * p) = throughCanvas canvas data ! (4 * p) \<and>
          out ! (4 * p + 1) = throughCanvas canvas data ! (4 * p + 1) \<and>
          out ! (4 * p + 2) = throughCanvas canvas data ! (4 * p + 2) \<and>
          out ! (4 * p + 3) = pixels img ! (4 * p + 3) \<and>
          (pixels img ! (4 * p + 3) = 255 \<longrightarrow>
             out ! (4 * p) = pixels img ! (4 * p) \<and>
             out ! (4 * p + 1) = pixels img ! (4 * p + 1) \<and>
             out ! (4 * p + 2) = pixels img ! (4 * p + 2))))"
proof -
  assume len: "4 * p + 4 \<le> length (pixels img)"
  define data where "data = throughCanvas canvas (pixels img)"
  define d where "d = distanceAt targetColor data p"
  define t where "t = tol / 100 * 441"
  define out where "out = pixels (removeBackground canvas img targetColor tol)"
  have d0: "0 \<le> d" by (simp add: d_def distanceAt_nonneg)
  have lend: "4 * p + 4 \<le> length data" using len by (simp add: data_def throughCanvas_length)
  have a: "out ! (4 * p + 3) =
     (if d \<le> t then toUint8Clamped (if d \<le> t * 0.7 then 0
              else Math_round (255 * ((d - t * 0.7) / (t * 0.3))))
      else pixels img ! (4 * p + 3))"
    unfolding out_def d_def t_def data_def by (rule alpha_at [OF len])
  have da: "data ! (4 * p + 3) = pixels img ! (4 * p + 3)"
    unfolding data_def by (rule throughCanvas_alpha [OF len])
  have rgb: "out ! (4 * p + k) = readBack canvas (data ! (4 * p + k)) (out ! (4 * p + 3))"
    if "k < 3" for k
    unfolding out_def data_def by (rule rgb_at [OF len that])
  have tc: "throughCanvas canvas data ! (4 * p + k) =
              readBack canvas (data ! (4 * p + k)) (data ! (4 * p + 3))" if "k < 3" for k
    by (rule throughCanvas_rgb [OF lend that])
  have c1: "d \<le> 0.7 * t \<longrightarrow> out ! (4 * p + 3) = 0"
  proof
    assume h: "d \<le> 0.7 * t"
    then have "0 \<le> t" using d0 by simp
    then have "d \<le> t" using h by simp
    then show "out ! (4 * p + 3) = 0" using h a by (simp add: toUint8Clamped_def mult.commute)
  qed
  have c2: "0.7 * t < d \<and> d \<le> t \<longrightarrow>
          uint (out ! (4 * p + 3)) = Math_round (255 * ((d - 0.7 * t) / (0.3 * t))) \<and>
          0 \<le> uint (out ! (4 * p + 3)) \<and> uint (out ! (4 * p + 3)) \<le> 255"
  proof
    assume h: "0.7 * t < d \<and> d \<le> t"
    then have h': "t * 0.7 < d" "d \<le> t" by (simp_all add: mult.commute)
    have r: "0 \<le> Math_round (255 * ((d - t * 0.7) / (t * 0.3)))"
            "Math_round (255 * ((d - t * 0.7) / (t * 0.3))) \<le> 255"
      using Math_round_ramp [OF ramp_range [OF h']] by simp_all
    have "out ! (4 * p + 3) = toUint8Clamped (Math_round (255 * ((d - t * 0.7) / (t * 0.3))))"
      using a h' by simp
    then have "uint (out ! (4 * p + 3)) = Math_round (255 * ((d - t * 0.7) / (t * 0.3)))"
      using toUint8Clamped_uint [OF r] by simp
    then show "uint (out ! (4 * p + 3)) = Math_round (255 * ((d - 0.7 * t) / (0.3 * t))) \<and>
          0 \<le> uint (out ! (4 * p + 3)) \<and> uint (out ! (4 * p + 3)) \<le> 255"
      using r by (simp add: mult.commute)
  qed
  have c3: "t < d \<longrightarrow>
          out ! (4 * p) = throughCanvas canvas data ! (4 * p) \<and>
          out ! (4 * p + 1) = throughCanvas canvas data ! (4 * p + 1) \<and>
          out ! (4 * p + 2) = throughCanvas canvas data ! (4 * p + 2) \<and>
          out ! (4 * p + 3) = pixels img ! (4 * p + 3) \<and>
          (pixels img ! (4 * p + 3) = 255 \<longrightarrow>
             out ! (4 * p) = pixels img ! (4 * p) \<and>
             out ! (4 * p + 1) = pixels img ! (4 * p + 1) \<and>
             out ! (4 * p + 2) = pixels img ! (4 * p + 2))"
  proof
    assume h: "t < d"
    have al: "out ! (4 * p + 3) = pixels img ! (4 * p + 3)" using a h by simp
    have e: "out ! (4 * p + k) = throughCanvas canvas data ! (4 * p + k)" if "k < 3" for k
      using rgb [OF that] tc [OF that] al da by simp
    have o: "out ! (4 * p + k) = pixels img ! (4 * p + k)"
      if "k < 3" "pixels img ! (4 * p + 3) = 255" for k
      using rgb [OF that(1)] al that(2) opaque_at [OF len that, of canvas]
      by (simp add: readBack_opaque data_def)
    show "out ! (4 * p) = throughCanvas canvas data ! (4 * p) \<and>
          out ! (4 * p + 1) = throughCanvas canvas data ! (4 * p + 1) \<and>
          out ! (4 * p + 2) = throughCanvas canvas data ! (4 * p + 2) \<and>
          out ! (4 * p + 3) = pixels img ! (4 * p + 3) \<and>
          (pixels img ! (4 * p + 3) = 255 \<longrightarrow>
             out ! (4 * p) = pixels img ! (4 * p) \<and>
             out ! (4 * p + 1) = pixels img ! (4 * p + 1) \<and>
             out ! (4 * p + 2) = pixels img ! (4 * p + 2))"
      using e [of 0] e [of 1] e [of 2] o [of 0] o [of 1] o [of 2] al by simp
  qed
  show ?thesis
    unfolding Let_def data_def [symmetric] d_def [symmetric] t_def [symmetric] out_def [symmetric]
    using c1 c2 c3 by blast
qed

theorem removeBackground_bands_witness:
  "4 * 2 + 4 \<le> length (pixels \<lparr> naturalWidth = 3, naturalHeight = 1,
       pixels = [0, 0, 0, 255, 4, 0, 0, 255, 200, 0, 0, 255] \<rparr>) \<and>
   throughCanvas premultiplied [0, 0, 0, 255, 4, 0, 0, 255, 200, 0, 0, 255]
     = [0, 0, 0, 255, 4, 0, 0, 255, 200, 0, 0, 255] \<and>
   distanceAt \<lparr> rgb_r = 0, rgb_g = 0, rgb_b = 0 \<rparr> [0, 0, 0, 255, 4, 0, 0, 255, 200, 0, 0, 255] 0
     \<le> 0.7 * (1 / 100 * 441) \<and>
   0.7 * (1 / 100 * 441)
     < distanceAt \<lparr> rgb_r = 0, rgb_g = 0, rgb_b = 0 \<rparr> [0, 0, 0, 255, 4, 0, 0, 255, 200, 0, 0, 255] 1 \<and>
   distanceAt \<lparr> rgb_r = 0, rgb_g = 0, rgb_b = 0 \<rparr> [0, 0, 0, 255, 4, 0, 0, 255, 200, 0, 0, 255] 1
     \<le> 1 / 100 * 441 \<and>
   1 / 100 * 441
     < distanceAt \<lparr> rgb_r = 0, rgb_g = 0, rgb_b = 0 \<rparr> [0, 0, 0, 255, 4, 0, 0, 255, 200, 0, 0, 255] 2 \<and>
   [0, 0, 0, 255, 4, 0, 0, 255, 200, 0, 0, 255] ! (4 * 2 + 3) = (255 :: byte) \<and>
   pixels (removeBackground premultiplied \<lparr> naturalWidth = 3, naturalHeight = 1,
       pixels = [0, 0, 0, 255, 4, 0, 0, 255, 200, 0, 0, 255] \<rparr>
       \<lparr> rgb_r = 0, rgb_g = 0, rgb_b = 0 \<rparr> 1) ! 3 = 0 \<and>
   uint (pixels (removeBackground premultiplied \<lparr> naturalWidth = 3, naturalHeight = 1,
       pixels = [0, 0, 0, 255, 4, 0, 0, 255, 200, 0, 0, 255] \<rparr>
       \<lparr> rgb_r = 0, rgb_g = 0, rgb_b = 0 \<rparr> 1) ! 7) = 176 \<and>
   drop 8 (pixels (removeBackground premultiplied \<lparr> naturalWidth = 3, naturalHeight = 1,
       pixels = [0, 0, 0, 255, 4, 0, 0, 255, 200, 0, 0, 255] \<rparr>
       \<lparr> rgb_r = 0, rgb_g = 0, rgb_b = 0 \<rparr> 1)) = [200, 0, 0, 255]"
proof -
  let ?img = "\<lparr> naturalWidth = 3, naturalHeight = 1,
       pixels = [0, 0, 0, 255, 4, 0, 0, 255, 200, 0, 0, 255 :: byte] \<rparr>"
  let ?black = "\<lparr> rgb_r = 0, rgb_g = 0, rgb_b = 0 \<rparr>"
  let ?out = "pixels (removeBackground premultiplied ?img ?black 1)"
  have s: "sqrt 16 = 4" "sqrt 40000 = 200"
    by (rule sqrt_square_int; simp)+
  have tc: "throughCanvas premultiplied (pixels ?img) = pixels ?img"
    by (simp add: readBack_def)
  have d: "distanceAt ?black (pixels ?img) 0 = 0" "distanceAt ?black (pixels ?img) 1 = 4"
     "distanceAt ?black (pixels ?img) 2 = 200"
    by (simp_all add: distanceAt_def s)
  have r: "Math_round (255 * ((4 - 0.7 * (1 / 100 * 441)) / (0.3 * (1 / 100 * 441)))) = 176"
    by (simp add: Math_round_def)
  have l: "length ?out = 12"
    by (simp add: removeBackground_def Let_def throughCanvas_length removeBackgroundLoop_length)
  have b: "?out ! 3 = 0 \<and> uint (?out ! 7) = 176 \<and>
           ?out ! 8 = 200 \<and> ?out ! 9 = 0 \<and> ?out ! 10 = 0 \<and> ?out ! 11 = 255"
    using removeBackground_bands [of 0 ?img premultiplied ?black 1]
      removeBackground_bands [of 1 ?img premultiplied ?black 1]
      removeBackground_bands [of 2 ?img premultiplied ?black 1]
    unfolding Let_def tc d
    using d r by simp
  have "drop 8 ?out = [?out ! 8, ?out ! 9, ?out ! 10, ?out ! 11]"
    using l by (simp add: list_eq_iff_nth_eq nth_Cons' numeral_eq_Suc less_Suc_eq)
  then show ?thesis using b tc d by simp
qed

text \<open>
  C4, as stated, fails: with tolerance 56 the opaque pixel (0, 95, 228) is at distance 247
  from black, inside the band of the threshold \<open>56/100 * 441.67 = 247.3352\<close>, where the
  ramp gives alpha \<open>round(255 * 73.86536 / 74.20056) = 254\<close>; the code compares with
  \<open>56/100 * 441 = 246.96\<close> and leaves the pixel opaque.
\<close>

theorem removeBackground_threshold_counterexample:
  "distanceAt \<lparr> rgb_r = 0, rgb_g = 0, rgb_b = 0 \<rparr> (throughCanvas premultiplied [0, 95, 228, 255]) 0
     = 247 \<and>
   0.7 * spec_threshold 56 < 247 \<and> 247 \<le> spec_threshold 56 \<and>
   spec_ramp_alpha 247 (spec_threshold 56) = 254 \<and>
   pixels (removeBackground premultiplied
             \<lparr> naturalWidth = 1, naturalHeight = 1, pixels = [0, 95, 228, 255] \<rparr>
             \<lparr> rgb_r = 0, rgb_g = 0, rgb_b = 0 \<rparr> 56) = [0, 95, 228, 255]"
proof -
  have s: "sqrt 61009 = 247"
    by (rule sqrt_square_int; simp)
  have tc: "throughCanvas premultiplied [0, 95, 228, 255] = [0, 95, 228, 255]"
    by (simp add: readBack_def)
  have d: "distanceAt \<lparr> rgb_r = 0, rgb_g = 0, rgb_b = 0 \<rparr> [0, 95, 228, 255] 0 = 247"
    by (simp add: distanceAt_def s)
  have r: "spec_ramp_alpha 247 (spec_threshold 56) = 254"
    by (simp add: spec_ramp_alpha_def spec_threshold_def Math_round_def)
  have c: "pixels (removeBackground premultiplied
             \<lparr> naturalWidth = 1, naturalHeight = 1, pixels = [0, 95, 228, 255] \<rparr>
             \<lparr> rgb_r = 0, rgb_g = 0, rgb_b = 0 \<rparr> 56) = [0, 95, 228, 255]"
    by (simp add: removeBackground_def Let_def readBack_def s)
  show ?thesis using d r c unfolding tc by (simp add: spec_threshold_def)
qed

text \<open>
  C9, as the code has it. \<open>removeBackground\<close> keeps the dimensions, and its loop writes
  alpha bytes only: the bytes given to \<open>putImageData\<close> differ from those \<open>getImageData\<close>
  read in alpha bytes at most. In the image returned, a pixel has the alpha the loop left
  and the R, G, B bytes the canvas gives for that alpha: the bytes read when the pixel
  ends opaque (those of the image when it was opaque before as well), zero when it ends
  fully transparent. For every pixel whose distance to the target is within the threshold
  the alpha byte is overwritten by a value that does not depend on the original one. In
  the ramp band that value is positive (the pixel, transparent or not before, is partially
  or fully opaque afterwards) when the distance has covered at least 1/510 of the band,
  and it is 255 at distance exactly equal to a positive threshold.
\<close>

theorem removeBackground_alpha_only:
  "naturalWidth (removeBackground canvas img targetColor tol) = naturalWidth img \<and>
   naturalHeight (removeBackground canvas img targetColor tol) = naturalHeight img \<and>
   length (pixels (removeBackground canvas img targetColor tol)) = length (pixels img) \<and>
   (j < length (pixels img) \<and> j mod 4 \<noteq> 3 \<longrightarrow>
      removeBackgroundLoop targetColor tol (throughCanvas canvas (pixels img)) ! j =
        throughCanvas canvas (pixels img) ! j) \<and>
   (4 * p + 4 \<le> length (pixels img) \<longrightarrow>
     (let data = throughCanvas canvas (pixels img);
          distance = distanceAt targetColor data p;
          threshold = tol / 100 * 441;
          out = pixels (removeBackground canvas img targetColor tol);
          alpha = out ! (4 * p + 3)
      in out ! (4 * p) = readBack canvas (data ! (4 * p)) alpha \<and>
         out ! (4 * p + 1) = readBack canvas (data ! (4 * p + 1)) alpha \<and>
         out ! (4 * p + 2) = readBack canvas (data ! (4 * p + 2)) alpha \<and>
         (alpha = 255 \<longrightarrow>
            out ! (4 * p) = data ! (4 * p) \<and> out ! (4 * p + 1) = data ! (4 * p + 1) \<and>
            out ! (4 * p + 2) = data ! (4 * p + 2)) \<and>
         (alpha = 255 \<and> pixels img ! (4 * p + 3) = 255 \<longrightarrow>
            out ! (4 * p) = pixels img ! (4 * p) \<and>
            out ! (4 * p + 1) = pixels img ! (4 * p + 1) \<and>
            out ! (4 * p + 2) = pixels img ! (4 * p + 2)) \<and>
         (alpha = 0 \<longrightarrow>
            out ! (4 * p) = 0 \<and> out ! (4 * p + 1) = 0 \<and> out ! (4 * p + 2) = 0) \<and>
         (distance \<le> threshold \<longrightarrow>
            alpha = toUint8Clamped
                      (if distance \<le> 0.7 * threshold then 0
                       else Math_round (255 * ((distance - 0.7 * threshold) / (0.3 * threshold))))) \<and>
         (0.7 * threshold < distance \<and> distance \<le> threshold \<and>
          1 / 510 \<le> (distance - 0.7 * threshold) / (0.3 * threshold) \<longrightarrow> 0 < uint alpha) \<and>
         (0 < threshold \<and> distance = threshold \<longrightarrow> alpha = 255)))"
proof -
  define data where "data = throughCanvas canvas (pixels img)"
  define out where "out = pixels (removeBackground canvas img targetColor tol)"
  have dims: "naturalWidth (removeBackground canvas img targetColor tol) = naturalWidth img"
    "naturalHeight (removeBackground canvas img targetColor tol) = naturalHeight img"
    "length out = length (pixels img)"
    by (simp_all add: out_def removeBackground_def Let_def throughCanvas_length
          removeBackgroundLoop_length)
  have loop: "j < length (pixels img) \<and> j mod 4 \<noteq> 3 \<longrightarrow>
      removeBackgroundLoop targetColor tol data ! j = data ! j"
    by (simp add: data_def removeBackgroundLoop_rgb throughCanvas_length)
  have al: "4 * p + 4 \<le> length (pixels img) \<longrightarrow>
     (let distance = distanceAt targetColor data p;
          threshold = tol / 100 * 441;
          alpha = out ! (4 * p + 3)
      in out ! (4 * p) = readBack canvas (data ! (4 * p)) alpha \<and>
         out ! (4 * p + 1) = readBack canvas (data ! (4 * p + 1)) alpha \<and>
         out ! (4 * p + 2) = readBack canvas (data ! (4 * p + 2)) alpha \<and>
         (alpha = 255 \<longrightarrow>
            out ! (4 * p) = data ! (4 * p) \<and> out ! (4 * p + 1) = data ! (4 * p + 1) \<and>
            out ! (4 * p + 2) = data ! (4 * p + 2)) \<and>
         (alpha = 255 \<and> pixels img ! (4 * p + 3) = 255 \<longrightarrow>
            out ! (4 * p) = pixels img ! (4 * p) \<and>
            out ! (4 * p + 1) = pixels img ! (4 * p + 1) \<and>
            out ! (4 * p + 2) = pixels img ! (4 * p + 2)) \<and>
         (alpha = 0 \<longrightarrow>
            out ! (4 * p) = 0 \<and> out ! (4 * p + 1) = 0 \<and> out ! (4 * p + 2) = 0) \<and>
         (distance \<le> threshold \<longrightarrow>
            alpha = toUint8Clamped
                      (if distance \<le> 0.7 * threshold then 0
                       else Math_round (255 * ((distance - 0.7 * threshold) / (0.3 * threshold))))) \<and>
         (0.7 * threshold < distance \<and> distance \<le> threshold \<and>
          1 / 510 \<le> (distance - 0.7 * threshold) / (0.3 * threshold) \<longrightarrow> 0 < uint alpha) \<and>
         (0 < threshold \<and> distance = threshold \<longrightarrow> alpha = 255))"
  proof
    assume len: "4 * p + 4 \<le> length (pixels img)"
    define d where "d = distanceAt targetColor data p"
    define t where "t = tol / 100 * 441"
    have a: "out ! (4 * p + 3) =
       (if d \<le> t then toUint8Clamped (if d \<le> t * 0.7 then 0
                else Math_round (255 * ((d - t * 0.7) / (t * 0.3))))
        else pixels img ! (4 * p + 3))"
      unfolding out_def d_def t_def data_def by (rule alpha_at [OF len])
    have rgb: "out ! (4 * p + k) = readBack canvas (data ! (4 * p + k)) (out ! (4 * p + 3))"
      if "k < 3" for k
      unfolding out_def data_def by (rule rgb_at [OF len that])
    have r0: "out ! (4 * p) = readBack canvas (data ! (4 * p)) (out ! (4 * p + 3))"
      "out ! (4 * p + 1) = readBack canvas (data ! (4 * p + 1)) (out ! (4 * p + 3))"
      "out ! (4 * p + 2) = readBack canvas (data ! (4 * p + 2)) (out ! (4 * p + 3))"
      using rgb [of 0] rgb [of 1] rgb [of 2] by simp_all
    have o1: "out ! (4 * p + 3) = 255 \<longrightarrow>
            out ! (4 * p) = data ! (4 * p) \<and> out ! (4 * p + 1) = data ! (4 * p + 1) \<and>
            out ! (4 * p + 2) = data ! (4 * p + 2)"
      using r0 by (simp add: readBack_opaque)
    have o2: "out ! (4 * p + 3) = 255 \<and> pixels img ! (4 * p + 3) = 255 \<longrightarrow>
            out ! (4 * p) = pixels img ! (4 * p) \<and>
            out ! (4 * p + 1) = pixels img ! (4 * p + 1) \<and>
            out ! (4 * p + 2) = pixels img ! (4 * p + 2)"
    proof
      assume h: "out ! (4 * p + 3) = 255 \<and> pixels img ! (4 * p + 3) = 255"
      then have "data ! (4 * p + k) = pixels img ! (4 * p + k)" if "k < 3" for k
        unfolding data_def using opaque_at [OF len that, of canvas] by simp
      from this [of 0] this [of 1] this [of 2]
      show "out ! (4 * p) = pixels img ! (4 * p) \<and>
            out ! (4 * p + 1) = pixels img ! (4 * p + 1) \<and>
            out ! (4 * p + 2) = pixels img ! (4 * p + 2)"
        using o1 h by simp
    qed
    have o3: "out ! (4 * p + 3) = 0 \<longrightarrow>
            out ! (4 * p) = 0 \<and> out ! (4 * p + 1) = 0 \<and> out ! (4 * p + 2) = 0"
      using r0 by (simp add: readBack_transparent)
    have c1: "d \<le> t \<longrightarrow> out ! (4 * p + 3) =
         toUint8Clamped (if d \<le> 0.7 * t then 0
                         else Math_round (255 * ((d - 0.7 * t) / (0.3 * t))))"
      using a by (simp add: mult.commute)
    have c2: "0.7 * t < d \<and> d \<le> t \<and> 1 / 510 \<le> (d - 0.7 * t) / (0.3 * t)
                \<longrightarrow> 0 < uint (out ! (4 * p + 3))"
    proof
      assume h: "0.7 * t < d \<and> d \<le> t \<and> 1 / 510 \<le> (d - 0.7 * t) / (0.3 * t)"
      then have h': "t * 0.7 < d" "d \<le> t" by (simp_all add: mult.commute)
      define q where "q = (d - t * 0.7) / (t * 0.3)"
      have q: "0 < q" "q \<le> 1" unfolding q_def using ramp_range [OF h'] by simp_all
      have q2: "1 / 510 \<le> q" using h by (simp add: q_def mult.commute)
      have r: "0 \<le> Math_round (255 * q)" "Math_round (255 * q) \<le> 255"
        using Math_round_ramp [OF q] by simp_all
      have "1 \<le> 255 * q + 1 / 2" using q2 by simp
      then have "1 \<le> \<lfloor>255 * q + 1 / 2\<rfloor>" by (simp add: le_floor_iff)
      then have pos: "0 < Math_round (255 * q)" by (simp add: Math_round_def)
      have "out ! (4 * p + 3) = toUint8Clamped (Math_round (255 * q))"
        using a h' by (simp add: q_def)
      then have "uint (out ! (4 * p + 3)) = Math_round (255 * q)"
        using toUint8Clamped_uint [OF r] by simp
      then show "0 < uint (out ! (4 * p + 3))" using pos by simp
    qed
    have c3: "0 < t \<and> d = t \<longrightarrow> out ! (4 * p + 3) = 255"
    proof
      assume h: "0 < t \<and> d = t"
      then have "(d - t * 0.7) / (t * 0.3) = 1" by simp
      then have "Math_round (255 * ((d - t * 0.7) / (t * 0.3))) = 255"
        by (simp add: Math_round_def)
      moreover have "\<not> d \<le> t * 0.7" using h by simp
      ultimately have "out ! (4 * p + 3) = toUint8Clamped 255" using a h by simp
      then show "out ! (4 * p + 3) = 255" by (simp add: toUint8Clamped_def)
    qed
    show "let distance = distanceAt targetColor data p;
          threshold = tol / 100 * 441;
          alpha = out ! (4 * p + 3)
      in out ! (4 * p) = readBack canvas (data ! (4 * p)) alpha \<and>
         out ! (4 * p + 1) = readBack canvas (data ! (4 * p + 1)) alpha \<and>
         out ! (4 * p + 2) = readBack canvas (data ! (4 * p + 2)) alpha \<and>
         (alpha = 255 \<longrightarrow>
            out ! (4 * p) = data ! (4 * p) \<and> out ! (4 * p + 1) = data ! (4 * p + 1) \<and>
            out ! (4 * p + 2) = data ! (4 * p + 2)) \<and>
         (alpha = 255 \<and> pixels img ! (4 * p + 3) = 255 \<longrightarrow>
            out ! (4 * p) = pixels img ! (4 * p) \<and>
            out ! (4 * p + 1) = pixels img ! (4 * p + 1) \<and>
            out ! (4 * p + 2) = pixels img ! (4 * p + 2)) \<and>
         (alpha = 0 \<longrightarrow>
            out ! (4 * p) = 0 \<and> out ! (4 * p + 1) = 0 \<and> out ! (4 * p + 2) = 0) \<and>
         (distance \<le> threshold \<longrightarrow>
            alpha = toUint8Clamped
                      (if distance \<le> 0.7 * threshold then 0
                       else Math_round (255 * ((distance - 0.7 * threshold) / (0.3 * threshold))))) \<and>
         (0.7 * threshold < distance \<and> distance \<le> threshold \<and>
          1 / 510 \<le> (distance - 0.7 * threshold) / (0.3 * threshold) \<longrightarrow> 0 < uint alpha) \<and>
         (0 < threshold \<and> distance = threshold \<longrightarrow> alpha = 255)"
      unfolding Let_def d_def [symmetric] t_def [symmetric]
      using r0 o1 o2 o3 c1 c2 c3 by blast
  qed
  show ?thesis
    using dims loop al unfolding out_def data_def Let_def by blast
qed

theorem removeBackground_alpha_only_witness:
  "(1::nat) < length [0, 0, 0, 0, 3, 4, 0, 255, 6, 8, 0, 255 :: byte] \<and> (1::nat) mod 4 \<noteq> 3 \<and>
   4 * 2 + 4 \<le> length [0, 0, 0, 0, 3, 4, 0, 255, 6, 8, 0, 255 :: byte] \<and>
   throughCanvas premultiplied [0, 0, 0, 0, 3, 4, 0, 255, 6, 8, 0, 255]
     = [0, 0, 0, 0, 3, 4, 0, 255, 6, 8, 0, 255] \<and>
   distanceAt \<lparr> rgb_r = 3, rgb_g = 4, rgb_b = 0 \<rparr> [0, 0, 0, 0, 3, 4, 0, 255, 6, 8, 0, 255] 0 = 5 \<and>
   distanceAt \<lparr> rgb_r = 3, rgb_g = 4, rgb_b = 0 \<rparr> [0, 0, 0, 0, 3, 4, 0, 255, 6, 8, 0, 255] 1 = 0 \<and>
   distanceAt \<lparr> rgb_r = 3, rgb_g = 4, rgb_b = 0 \<rparr> [0, 0, 0, 0, 3, 4, 0, 255, 6, 8, 0, 255] 2 = 5 \<and>
   (0::real) < 500 / 441 / 100 * 441 \<and> 500 / 441 / 100 * 441 = (5::real) \<and>
   1 / 510 \<le> ((5::real) - 0.7 * 5) / (0.3 * 5) \<and>
   [0, 0, 0, 0, 3, 4, 0, 255, 6, 8, 0, 255] ! (4 * 2 + 3) = (255 :: byte) \<and>
   removeBackgroundLoop \<lparr> rgb_r = 3, rgb_g = 4, rgb_b = 0 \<rparr> (500 / 441)
       [0, 0, 0, 0, 3, 4, 0, 255, 6, 8, 0, 255] ! 1 = 0 \<and>
   pixels (removeBackground premultiplied
             \<lparr> naturalWidth = 3, naturalHeight = 1,
               pixels = [0, 0, 0, 0, 3, 4, 0, 255, 6, 8, 0, 255] \<rparr>
             \<lparr> rgb_r = 3, rgb_g = 4, rgb_b = 0 \<rparr> (500 / 441))
     = [0, 0, 0, 255, 0, 0, 0, 0, 6, 8, 0, 255]"
proof -
  let ?px = "[0, 0, 0, 0, 3, 4, 0, 255, 6, 8, 0, 255 :: byte]"
  let ?img = "\<lparr> naturalWidth = 3, naturalHeight = 1, pixels = ?px \<rparr>"
  let ?target = "\<lparr> rgb_r = 3, rgb_g = 4, rgb_b = 0 \<rparr>"
  let ?out = "pixels (removeBackground premultiplied ?img ?target (500 / 441))"
  have s: "sqrt 25 = 5"
    by (rule sqrt_square_int; simp)
  have px: "pixels ?img = ?px"
    by simp
  have tc: "throughCanvas premultiplied ?px = ?px"
    by (simp add: readBack_def)
  have d: "distanceAt ?target ?px 0 = 5" "distanceAt ?target ?px 1 = 0"
     "distanceAt ?target ?px 2 = 5"
    by (simp_all add: distanceAt_def s)
  have l: "length ?out = 12"
    by (simp add: removeBackground_def Let_def throughCanvas_length removeBackgroundLoop_length)
  have p0: "?out ! 0 = 0 \<and> ?out ! 1 = 0 \<and> ?out ! 2 = 0 \<and> ?out ! 3 = 255 \<and>
            removeBackgroundLoop ?target (500 / 441) ?px ! 1 = 0"
    using removeBackground_alpha_only [of premultiplied ?img ?target "500 / 441" 1 0]
    unfolding Let_def px tc d
    by (simp add: Math_round_def toUint8Clamped_def readBack_def numeral_2_eq_2)
  have p1: "?out ! 4 = 0 \<and> ?out ! 5 = 0 \<and> ?out ! 6 = 0 \<and> ?out ! 7 = 0"
    using removeBackground_alpha_only [of premultiplied ?img ?target "500 / 441" 1 1]
    unfolding Let_def px tc d
    by (simp add: Math_round_def toUint8Clamped_def readBack_def)
  have p2: "?out ! 8 = 6 \<and> ?out ! 9 = 8 \<and> ?out ! 10 = 0 \<and> ?out ! 11 = 255"
    using removeBackground_alpha_only [of premultiplied ?img ?target "500 / 441" 1 2]
    unfolding Let_def px tc d
    by (simp add: Math_round_def toUint8Clamped_def readBack_def)
  have "?out = [?out ! 0, ?out ! 1, ?out ! 2, ?out ! 3, ?out ! 4, ?out ! 5, ?out ! 6, ?out ! 7,
                ?out ! 8, ?out ! 9, ?out ! 10, ?out ! 11]"
    using l by (simp add: list_eq_iff_nth_eq nth_Cons' numeral_eq_Suc less_Suc_eq)
  then have "?out = [0, 0, 0, 255, 0, 0, 0, 0, 6, 8, 0, 255]"
    using p0 p1 p2 by simp
  then show ?thesis using tc d p0 by simp
qed

text \<open>
  C9, as stated, fails twice on the image of two pixels, the opaque (0, 63, 84) and a
  fully transparent one, with target color (0, 63, 84) and tolerance 34 (threshold
  149.94, band from 104.958). The first pixel is at distance 0 and ends fully transparent:
  the image returned has the bytes 0, 0, 0 for it, not 0, 63, 84. The second pixel reads
  from the canvas as transparent black, at distance 105 from the target, inside the band,
  and its new alpha is \<open>round(255 * 0.042 / 44.982) = round(0.238) = 0\<close>: it stays fully
  transparent.
\<close>

theorem removeBackground_ramp_counterexample:
  "throughCanvas premultiplied [0, 63, 84, 255, 0, 0, 0, 0] = [0, 63, 84, 255, 0, 0, 0, 0] \<and>
   distanceAt \<lparr> rgb_r = 0, rgb_g = 63, rgb_b = 84 \<rparr> [0, 63, 84, 255, 0, 0, 0, 0] 0 = 0 \<and>
   distanceAt \<lparr> rgb_r = 0, rgb_g = 63, rgb_b = 84 \<rparr> [0, 63, 84, 255, 0, 0, 0, 0] 1 = 105 \<and>
   0.7 * (34 / 100 * 441) < (105::real) \<and> (105::real) \<le> 34 / 100 * 441 \<and>
   pixels (removeBackground premultiplied
             \<lparr> naturalWidth = 2, naturalHeight = 1, pixels = [0, 63, 84, 255, 0, 0, 0, 0] \<rparr>
             \<lparr> rgb_r = 0, rgb_g = 63, rgb_b = 84 \<rparr> 34) = [0, 0, 0, 0, 0, 0, 0, 0]"
proof -
  have s: "sqrt 11025 = 105"
    by (rule sqrt_square_int; simp)
  have tc: "throughCanvas premultiplied [0, 63, 84, 255, 0, 0, 0, 0] = [0, 63, 84, 255, 0, 0, 0, 0]"
    by (simp add: readBack_def)
  have d: "distanceAt \<lparr> rgb_r = 0, rgb_g = 63, rgb_b = 84 \<rparr> [0, 63, 84, 255, 0, 0, 0, 0] 0 = 0"
    "distanceAt \<lparr> rgb_r = 0, rgb_g = 63, rgb_b = 84 \<rparr> [0, 63, 84, 255, 0, 0, 0, 0] 1 = 105"
    by (simp_all add: distanceAt_def s)
  have c: "pixels (removeBackground premultiplied
             \<lparr> naturalWidth = 2, naturalHeight = 1, pixels = [0, 63, 84, 255, 0, 0, 0, 0] \<rparr>
             \<lparr> rgb_r = 0, rgb_g = 63, rgb_b = 84 \<rparr> 34) = [0, 0, 0, 0, 0, 0, 0, 0]"
    by (simp add: removeBackground_def Let_def readBack_def s Math_round_def toUint8Clamped_def)
  show ?thesis using tc d c by simp
qed
section \<open>Properties of detectBackgroundColor\<close>

lemma ceil_div_step:
  fixes i n step :: nat
  assumes "0 < step" "i < n"
  shows "(n - i + step - 1) div step = Suc ((n - (i + step) + step - 1) div step)"
proof (cases "i + step \<le> n")
  case True
  define x where "x = n - (i + step) + step - 1"
  have e: "n - i + step - 1 = x + step" using True assms by (simp add: x_def)
  have "(x + step) div step = Suc (x div step)" using assms(1) by simp
  then show ?thesis unfolding e x_def .
next
  case False
  define k where "k = n - i - 1"
  have k: "k < step" using assms False by (simp add: k_def)
  have e: "n - i + step - 1 = k + step" using assms False by (simp add: k_def)
  have z: "n - (i + step) + step - 1 = step - 1" using False by simp
  have "(k + step) div step = Suc (k div step)" using assms(1) by simp
  moreover have "k div step = 0" using k by simp
  moreover have "(step - 1) div step = 0" using assms(1) by simp
  ultimately show ?thesis unfolding e z by simp
qed

lemma forLoop_step:
  "i < n \<Longrightarrow> 0 < step \<Longrightarrow>
   forLoop i n step body s = forLoop (i + step) n step body (body i s)"
  by (subst forLoop.simps) simp

lemma forLoop_done: "\<not> (i < n \<and> 0 < step) \<Longrightarrow> forLoop i n step body s = s"
  by (subst forLoop.simps) (simp only: if_False)

lemma forLoop_length:
  "0 < step \<Longrightarrow> (\<And>i s. length (body i s) = length s + 2) \<Longrightarrow>
   length (forLoop i n step body s) = length s + 2 * ((n - i + step - 1) div step)"
proof (induction i n step body s rule: forLoop.induct)
  case (1 i n step body s)
  show ?case
  proof (cases "i < n")
    case True
    then have "length (forLoop i n step body s) = length (forLoop (i + step) n step body (body i s))"
      using "1.prems"(1) by (simp add: forLoop_step)
    also have "\<dots> = length (body i s) + 2 * ((n - (i + step) + step - 1) div step)"
      using True "1.prems" by (intro "1.IH") simp_all
    also have "\<dots> = length s + 2 * ((n - i + step - 1) div step)"
      using "1.prems"(2) ceil_div_step [OF "1.prems"(1) True] by simp
    finally show ?thesis .
  next
    case False
    then have "n - i + step - 1 < step" using "1.prems"(1) by simp
    then show ?thesis using False by (simp add: forLoop_done)
  qed
qed

lemma forLoop_invariant:
  "(\<And>i s. i < n \<Longrightarrow> P s \<Longrightarrow> P (body i s)) \<Longrightarrow> P s \<Longrightarrow> P (forLoop i n step body s)"
proof (induction i n step body s rule: forLoop.induct)
  case (1 i n step body s)
  show ?case
  proof (cases "i < n \<and> 0 < step")
    case True
    then have "P (forLoop (i + step) n step body (body i s))"
      using "1.prems" by (intro "1.IH") simp_all
    then show ?thesis using True by (simp add: forLoop_step)
  next
    case False
    then show ?thesis using "1.prems"(2) by (simp add: forLoop_done)
  qed
qed

lemma forLoop_append:
  "0 < step \<Longrightarrow> (\<And>i s. i < n \<Longrightarrow> body i s = s @ f i) \<Longrightarrow>
   forLoop i n step body s =
     s @ concat (map (\<lambda>k. f (i + k * step)) [0..<(n - i + step - 1) div step])"
proof (induction i n step body s rule: forLoop.induct)
  case (1 i n step body s)
  show ?case
  proof (cases "i < n")
    case True
    define m where "m = (n - (i + step) + step - 1) div step"
    have c: "(n - i + step - 1) div step = Suc m"
      using ceil_div_step [OF "1.prems"(1) True] by (simp add: m_def)
    have "forLoop i n step body s = forLoop (i + step) n step body (body i s)"
      using True "1.prems"(1) by (simp add: forLoop_step)
    also have "\<dots> = body i s @ concat (map (\<lambda>k. f (i + step + k * step)) [0..<m])"
      unfolding m_def using True "1.prems" by (intro "1.IH") simp_all
    also have "\<dots> = s @ f i @ concat (map (\<lambda>k. f (i + Suc k * step)) [0..<m])"
      using "1.prems"(2) [OF True] by (simp add: add.assoc)
    also have "\<dots> = s @ concat (map (\<lambda>k. f (i + k * step)) [0..<Suc m])"
      by (simp only: map_upt_Suc concat.simps) simp
    finally show ?thesis unfolding c .
  next
    case False
    then have "n - i + step - 1 < step" using "1.prems"(1) by simp
    then show ?thesis using False by (simp add: forLoop_done)
  qed
qed

lemma addSample_length: "length (addSample canvas img x y colors) = length colors + 1"
  by (simp add: addSample_def Let_def)

lemma edgeSamples_length:
  "length (edgeSamples canvas img) =
     (let w = naturalWidth img; h = naturalHeight img;
          step = max 1 ((w + h) * 2 div min 200 ((w + h) * 2))
      in 2 * ((w + step - 1) div step) + 2 * ((h + step - 1) div step))"
proof -
  define w where "w = naturalWidth img"
  define h where "h = naturalHeight img"
  define step where "step = max 1 ((w + h) * 2 div min 200 ((w + h) * 2))"
  have s: "0 < step" by (simp add: step_def)
  show ?thesis
    unfolding edgeSamples_def Let_def w_def [symmetric] h_def [symmetric] step_def [symmetric]
    by (simp add: forLoop_length [OF s] addSample_length)
qed

lemma ceil_div_le: "0 < step \<Longrightarrow> (n + step - 1) div step \<le> (n::nat)"
proof -
  assume s: "0 < step"
  have e: "(n + 1) * step = n * step + step" by simp
  have "n \<le> n * step" using s by (cases step) simp_all
  then have "n + step - 1 < (n + 1) * step" unfolding e using s by linarith
  then have "(n + step - 1) div step < n + 1" by (rule less_mult_imp_div_less)
  then show ?thesis by simp
qed

lemma ceil_div_mult: "0 < step \<Longrightarrow> ((n + step - 1) div step) * step \<le> n + step - (1::nat)"
  by (rule div_times_less_eq_dividend)

lemma edgeSamples_bounds:
  assumes "1 \<le> naturalWidth img" "1 \<le> naturalHeight img"
  shows "length (edgeSamples canvas img) \<le> 2 * (naturalWidth img + naturalHeight img)"
    and "length (edgeSamples canvas img) \<le> 398"
    and "2 * (naturalWidth img + naturalHeight img) \<le> 200 \<Longrightarrow>
         length (edgeSamples canvas img) = 2 * (naturalWidth img + naturalHeight img)"
proof -
  define w where "w = naturalWidth img"
  define h where "h = naturalHeight img"
  define step where "step = max 1 ((w + h) * 2 div min 200 ((w + h) * 2))"
  define a where "a = (w + step - 1) div step"
  define b where "b = (h + step - 1) div step"
  have s: "0 < step" by (simp add: step_def)
  have wh: "1 \<le> w" "1 \<le> h" using assms by (simp_all add: w_def h_def)
  have len: "length (edgeSamples canvas img) = 2 * a + 2 * b"
    unfolding edgeSamples_length Let_def a_def b_def step_def w_def h_def by simp
  have ale: "a \<le> w" "b \<le> h" unfolding a_def b_def using ceil_div_le [OF s] by simp_all
  show "length (edgeSamples canvas img) \<le> 2 * (naturalWidth img + naturalHeight img)"
    using len ale by (simp add: w_def h_def)
  have small: "(w + h) * 2 \<le> 200 \<Longrightarrow> step = 1"
  proof -
    assume "(w + h) * 2 \<le> 200"
    then have "min 200 ((w + h) * 2) = (w + h) * 2" by simp
    moreover have "0 < (w + h) * 2" using wh by simp
    ultimately show "step = 1" by (simp add: step_def)
  qed
  show "2 * (naturalWidth img + naturalHeight img) \<le> 200 \<Longrightarrow>
         length (edgeSamples canvas img) = 2 * (naturalWidth img + naturalHeight img)"
  proof -
    assume "2 * (naturalWidth img + naturalHeight img) \<le> 200"
    then have "step = 1" using small by (simp add: w_def h_def)
    then show ?thesis using len by (simp add: a_def b_def w_def h_def)
  qed
  show "length (edgeSamples canvas img) \<le> 398"
  proof (cases "(w + h) * 2 \<le> 200")
    case True
    then have "step = 1" by (rule small)
    then have "length (edgeSamples canvas img) = 2 * (w + h)" using len by (simp add: a_def b_def)
    then show ?thesis using True by simp
  next
    case False
    then have m: "min 200 ((w + h) * 2) = 200" by simp
    have "1 \<le> (w + h) * 2 div 200" using False by (simp add: Suc_le_eq div_greater_zero_iff)
    then have st: "step = (w + h) * 2 div 200" by (simp add: step_def m)
    have "(w + h) * 2 < 200 * (step + 1)"
      unfolding st using dividend_less_times_div [of 200 "(w + h) * 2"] by simp
    then have up: "w + h < 100 * step + 100" by simp
    have "a * step \<le> w + step - 1" "b * step \<le> h + step - 1"
      unfolding a_def b_def using ceil_div_mult [OF s] by simp_all
    then have "(a + b) * step \<le> w + h + 2 * step - 2"
      using s wh by (simp add: add_mult_distrib)
    then have ab: "(a + b) * step < 102 * step + 98" using up by simp
    have "a + b \<le> 199"
    proof (rule ccontr)
      assume "\<not> a + b \<le> 199"
      then have "200 \<le> a + b" by simp
      then have "200 * step \<le> (a + b) * step" by (rule mult_le_mono1)
      then have "200 * step < 102 * step + 98" using ab by (rule le_less_trans)
      then show False using s by linarith
    qed
    then show ?thesis using len by simp
  qed
qed

lemma map_of_Map_set: "map_of (Map_set m k v) = (map_of m)(k \<mapsto> v)"
  by (induction m k v rule: Map_set.induct) auto

lemma fst_set_Map_set: "fst ` set (Map_set m k v) = insert k (fst ` set m)"
  by (induction m k v rule: Map_set.induct) auto

lemma distinct_Map_set: "distinct (map fst m) \<Longrightarrow> distinct (map fst (Map_set m k v))"
  by (induction m k v rule: Map_set.induct) (auto simp: fst_set_Map_set)

lemma addToBuckets_eq:
  "addToBuckets buckets c =
     Map_set buckets (keyOf c)
       (case map_of buckets (keyOf c) of
          Some b \<Rightarrow> \<lparr> count = count b + 1, totalR = totalR b + rgb_r c,
                      totalG = totalG b + rgb_g c, totalB = totalB b + rgb_b c \<rparr>
        | None \<Rightarrow> \<lparr> count = 1, totalR = rgb_r c, totalG = rgb_g c, totalB = rgb_b c \<rparr>)"
proof (cases "map_of buckets (keyOf c)")
  case None
  then show ?thesis by (simp add: addToBuckets_def Let_def)
next
  case (Some b)
  then show ?thesis by (cases b) (simp add: addToBuckets_def Let_def)
qed

lemma buckets_invariant:
  "distinct (map fst (foldl addToBuckets [] cs)) \<and>
   (\<forall>k. map_of (foldl addToBuckets [] cs) k =
          (if samplesInBucket cs k = [] then None else Some (bucketOf (samplesInBucket cs k))))"
proof (induction cs rule: rev_induct)
  case Nil
  then show ?case by (simp add: samplesInBucket_def)
next
  case (snoc c cs)
  define bs where "bs = foldl addToBuckets [] cs"
  have d: "distinct (map fst bs)" and
    m: "\<And>k. map_of bs k =
          (if samplesInBucket cs k = [] then None else Some (bucketOf (samplesInBucket cs k)))"
    using snoc.IH unfolding bs_def by blast+
  have f: "foldl addToBuckets [] (cs @ [c]) = addToBuckets bs c" by (simp add: bs_def)
  have d': "distinct (map fst (addToBuckets bs c))"
    unfolding addToBuckets_eq using d by (rule distinct_Map_set)
  have m': "map_of (addToBuckets bs c) k =
          (if samplesInBucket (cs @ [c]) k = [] then None
           else Some (bucketOf (samplesInBucket (cs @ [c]) k)))" for k
  proof (cases "k = keyOf c")
    case True
    then show ?thesis
      unfolding addToBuckets_eq map_of_Map_set
      by (simp add: m samplesInBucket_def bucketOf_def)
  next
    case False
    then show ?thesis
      unfolding addToBuckets_eq map_of_Map_set
      by (simp add: m samplesInBucket_def)
  qed
  show ?case unfolding f using d' m' by blast
qed

lemma foldl_pickBest:
  "(foldl pickBest b0 xs = b0 \<or> foldl pickBest b0 xs \<in> set xs) \<and>
   count b0 \<le> count (foldl pickBest b0 xs) \<and>
   (\<forall>x \<in> set xs. count x \<le> count (foldl pickBest b0 xs))"
proof (induction xs arbitrary: b0)
  case Nil
  then show ?case by simp
next
  case (Cons x xs)
  define b1 where "b1 = pickBest b0 x"
  have b1: "(b1 = b0 \<or> b1 = x)" "count b0 \<le> count b1" "count x \<le> count b1"
    by (auto simp: b1_def pickBest_def)
  have IH: "(foldl pickBest b1 xs = b1 \<or> foldl pickBest b1 xs \<in> set xs)"
    "count b1 \<le> count (foldl pickBest b1 xs)"
    "\<forall>y \<in> set xs. count y \<le> count (foldl pickBest b1 xs)"
    using Cons.IH [of b1] by simp_all
  have f: "foldl pickBest b0 (x # xs) = foldl pickBest b1 xs" by (simp add: b1_def)
  show ?case unfolding f using b1 IH by auto
qed

lemma detectBackgroundColor_mode:
  assumes ne: "edgeSamples canvas img \<noteq> []"
  shows "\<exists>k. samplesInBucket (edgeSamples canvas img) k \<noteq> [] \<and>
     (\<forall>k'. length (samplesInBucket (edgeSamples canvas img) k')
             \<le> length (samplesInBucket (edgeSamples canvas img) k)) \<and>
     detectBackgroundColor canvas img =
       Some \<lparr> rgb_r = real_of_int (Math_round
                 (sum_list (map rgb_r (samplesInBucket (edgeSamples canvas img) k)) /
                  real (length (samplesInBucket (edgeSamples canvas img) k)))),
              rgb_g = real_of_int (Math_round
                 (sum_list (map rgb_g (samplesInBucket (edgeSamples canvas img) k)) /
                  real (length (samplesInBucket (edgeSamples canvas img) k)))),
              rgb_b = real_of_int (Math_round
                 (sum_list (map rgb_b (samplesInBucket (edgeSamples canvas img) k)) /
                  real (length (samplesInBucket (edgeSamples canvas img) k)))) \<rparr>"
proof -
  define cs where "cs = edgeSamples canvas img"
  define bs where "bs = foldl addToBuckets [] cs"
  define b0 where "b0 = \<lparr> count = 0, totalR = 255, totalG = 255, totalB = 255 \<rparr>"
  define best where "best = foldl pickBest b0 (map snd bs)"
  have d: "distinct (map fst bs)" and
    m: "\<And>k. map_of bs k =
          (if samplesInBucket cs k = [] then None else Some (bucketOf (samplesInBucket cs k)))"
    using buckets_invariant [of cs] unfolding bs_def by blast+
  have p: "best = b0 \<or> best \<in> set (map snd bs)"
    "\<forall>x \<in> set (map snd bs). count x \<le> count best"
    using foldl_pickBest [of b0 "map snd bs"] by (simp_all add: best_def)
  have le: "length (samplesInBucket cs k') \<le> count best" for k'
  proof (cases "samplesInBucket cs k' = []")
    case True then show ?thesis by simp
  next
    case False
    then have "map_of bs k' = Some (bucketOf (samplesInBucket cs k'))" by (simp add: m)
    then have "(k', bucketOf (samplesInBucket cs k')) \<in> set bs" by (rule map_of_SomeD)
    then have "bucketOf (samplesInBucket cs k') \<in> set (map snd bs)" by force
    then have "count (bucketOf (samplesInBucket cs k')) \<le> count best" using p(2) by blast
    then show ?thesis by (simp add: bucketOf_def)
  qed
  obtain c where c: "c \<in> set cs" using ne by (cases cs) (auto simp: cs_def)
  then have "samplesInBucket cs (keyOf c) \<noteq> []"
    by (auto simp: samplesInBucket_def filter_empty_conv)
  then have "0 < length (samplesInBucket cs (keyOf c))" by simp
  then have pos: "0 < count best" using le [of "keyOf c"] by linarith
  then have "best \<noteq> b0" by (auto simp: b0_def)
  then have "best \<in> set (map snd bs)" using p(1) by blast
  then obtain k where k: "(k, best) \<in> set bs" by force
  then have "map_of bs k = Some best" using d by simp
  then have kb: "samplesInBucket cs k \<noteq> []" "best = bucketOf (samplesInBucket cs k)"
    using m [of k] by (auto split: if_splits)
  have cnt: "count best = length (samplesInBucket cs k)" using kb(2) by (simp add: bucketOf_def)
  have r: "detectBackgroundColor canvas img =
       Some \<lparr> rgb_r = real_of_int (Math_round (totalR best / real (count best))),
              rgb_g = real_of_int (Math_round (totalG best / real (count best))),
              rgb_b = real_of_int (Math_round (totalB best / real (count best))) \<rparr>"
    using pos unfolding detectBackgroundColor_def Let_def
      cs_def [symmetric] bs_def [symmetric] b0_def [symmetric] best_def [symmetric]
    by simp
  have tot: "totalR best = sum_list (map rgb_r (samplesInBucket cs k))"
    "totalG best = sum_list (map rgb_g (samplesInBucket cs k))"
    "totalB best = sum_list (map rgb_b (samplesInBucket cs k))"
    using kb(2) by (simp_all add: bucketOf_def)
  show ?thesis
    unfolding cs_def [symmetric]
    using kb(1) le r unfolding cnt tot by blast
qed

lemma addSample_inside:
  assumes "0 \<le> x" "x < int (naturalWidth img)" "0 \<le> y" "y < int (naturalHeight img)"
  shows "addSample canvas img x y colors = colors @ [colorAt canvas img x y]"
proof -
  have "max 0 (min (int (naturalWidth img) - 1) x) = x"
    "max 0 (min (int (naturalHeight img) - 1) y) = y"
    using assms by linarith+
  then show ?thesis by (simp add: addSample_def colorAt_def Let_def)
qed

lemma edgeSamples_eq:
  assumes "1 \<le> naturalWidth img" "1 \<le> naturalHeight img"
  shows "edgeSamples canvas img =
     (let w = naturalWidth img; h = naturalHeight img;
          step = max 1 ((w + h) * 2 div min 200 ((w + h) * 2))
      in concat (map (\<lambda>k. [colorAt canvas img (int (k * step)) 0,
                             colorAt canvas img (int (k * step)) (int h - 1)])
                   [0..<(w + step - 1) div step]) @
         concat (map (\<lambda>k. [colorAt canvas img 0 (int (k * step)),
                             colorAt canvas img (int w - 1) (int (k * step))])
                   [0..<(h + step - 1) div step]))"
proof -
  define w where "w = naturalWidth img"
  define h where "h = naturalHeight img"
  define step where "step = max 1 ((w + h) * 2 div min 200 ((w + h) * 2))"
  define rows where "rows = (\<lambda>i. [colorAt canvas img (int i) 0, colorAt canvas img (int i) (int h - 1)])"
  define cols where "cols = (\<lambda>i. [colorAt canvas img 0 (int i), colorAt canvas img (int w - 1) (int i)])"
  have s: "0 < step" by (simp add: step_def)
  have wh: "1 \<le> w" "1 \<le> h" using assms by (simp_all add: w_def h_def)
  have r: "addSample canvas img (int i) (int h - 1) (addSample canvas img (int i) 0 colors)
             = colors @ rows i" if "i < w" for i colors
    using that wh by (simp add: addSample_inside w_def h_def rows_def)
  have c: "addSample canvas img (int w - 1) (int i) (addSample canvas img 0 (int i) colors)
             = colors @ cols i" if "i < h" for i colors
    using that wh by (simp add: addSample_inside w_def h_def cols_def)
  have l1: "forLoop 0 w step
              (\<lambda>i colors. addSample canvas img (int i) (int h - 1)
                            (addSample canvas img (int i) 0 colors)) []
            = concat (map (\<lambda>k. rows (k * step)) [0..<(w + step - 1) div step])"
    using forLoop_append [where f = rows and i = 0 and s = "[]", OF s r] by simp
  have l2: "forLoop 0 h step
              (\<lambda>i colors. addSample canvas img (int w - 1) (int i)
                            (addSample canvas img 0 (int i) colors)) colors
            = colors @ concat (map (\<lambda>k. cols (k * step)) [0..<(h + step - 1) div step])"
    for colors
    using forLoop_append [where f = cols and i = 0 and s = colors, OF s c] by simp
  show ?thesis
    unfolding edgeSamples_def Let_def w_def [symmetric] h_def [symmetric] step_def [symmetric]
    unfolding l1 l2 rows_def cols_def by simp
qed

lemma edgeSamples_on_edges:
  assumes "1 \<le> naturalWidth img" "1 \<le> naturalHeight img"
  shows "\<forall>c \<in> set (edgeSamples canvas img). \<exists>x y. onEdge img x y \<and> c = colorAt canvas img x y"
proof -
  define P where "P = (\<lambda>s. \<forall>c \<in> set s. \<exists>x y. onEdge img x y \<and> c = colorAt canvas img x y)"
  define w where "w = naturalWidth img"
  define h where "h = naturalHeight img"
  define step where "step = max 1 ((w + h) * 2 div min 200 ((w + h) * 2))"
  have wh: "1 \<le> w" "1 \<le> h" using assms by (simp_all add: w_def h_def)
  have add: "P (s @ [colorAt canvas img x y])" if "P s" "onEdge img x y" for s x y
    using that unfolding P_def by auto
  have rows: "P (addSample canvas img (int i) (int h - 1) (addSample canvas img (int i) 0 s))"
    if "i < w" "P s" for i s
  proof -
    have e: "onEdge img (int i) 0" "onEdge img (int i) (int h - 1)"
      using that(1) wh by (simp_all add: onEdge_def w_def h_def)
    have "addSample canvas img (int i) (int h - 1) (addSample canvas img (int i) 0 s) =
          (s @ [colorAt canvas img (int i) 0]) @ [colorAt canvas img (int i) (int h - 1)]"
      using that(1) wh by (simp add: addSample_inside w_def h_def)
    then show ?thesis using add [OF add [OF that(2) e(1)] e(2)] by simp
  qed
  have cols: "P (addSample canvas img (int w - 1) (int i) (addSample canvas img 0 (int i) s))"
    if "i < h" "P s" for i s
  proof -
    have e: "onEdge img 0 (int i)" "onEdge img (int w - 1) (int i)"
      using that(1) wh by (simp_all add: onEdge_def w_def h_def)
    have "addSample canvas img (int w - 1) (int i) (addSample canvas img 0 (int i) s) =
          (s @ [colorAt canvas img 0 (int i)]) @ [colorAt canvas img (int w - 1) (int i)]"
      using that(1) wh by (simp add: addSample_inside w_def h_def)
    then show ?thesis using add [OF add [OF that(2) e(1)] e(2)] by simp
  qed
  have "P []" by (simp add: P_def)
  then have "P (forLoop 0 w step
      (\<lambda>i colors. addSample canvas img (int i) (int h - 1) (addSample canvas img (int i) 0 colors)) [])"
    by (rule forLoop_invariant [where P = P, rotated]) (rule rows)
  then have "P (forLoop 0 h step
      (\<lambda>i colors. addSample canvas img (int w - 1) (int i) (addSample canvas img 0 (int i) colors))
      (forLoop 0 w step
        (\<lambda>i colors. addSample canvas img (int i) (int h - 1) (addSample canvas img (int i) 0 colors)) []))"
    by (rule forLoop_invariant [where P = P, rotated]) (rule cols)
  then have "P (edgeSamples canvas img)"
    unfolding edgeSamples_def Let_def w_def [symmetric] h_def [symmetric] step_def [symmetric] .
  then show ?thesis by (simp add: P_def)
qed

lemma edgeSamples_nonempty:
  assumes "1 \<le> naturalWidth img" "1 \<le> naturalHeight img"
  shows "edgeSamples canvas img \<noteq> []"
proof -
  define step where "step = max 1 ((naturalWidth img + naturalHeight img) * 2 div
                                   min 200 ((naturalWidth img + naturalHeight img) * 2))"
  have s: "0 < step" by (simp add: step_def)
  have "step \<le> naturalWidth img + step - 1" using assms by simp
  then have "1 \<le> (naturalWidth img + step - 1) div step"
    using s by (simp add: Suc_le_eq div_greater_zero_iff)
  then have "0 < length (edgeSamples canvas img)"
    unfolding edgeSamples_length Let_def step_def by simp
  then show ?thesis by simp
qed

text \<open>
  C6, as the code has it. For every image of width \<open>w \<ge> 1\<close> and height \<open>h \<ge> 1\<close>,
  \<open>detectBackgroundColor\<close> samples the four image edges at the stride
  \<open>step = max(1, floor(2(w+h) / min(200, 2(w+h))))\<close>: for every column
  \<open>0, step, 2 step, ...\<close> below \<open>w\<close> the pixel of the top row and then that of the bottom
  row, and after them for every row \<open>0, step, 2 step, ...\<close> below \<open>h\<close> the pixel of the left
  column and then that of the right column, as read from the canvas. Every sample is the
  color of a pixel on an edge. The number of samples is
  \<open>2 * ceil(w / step) + 2 * ceil(h / step)\<close>, at most \<open>2(w+h)\<close> and at most 398
  (it is exactly \<open>2(w+h)\<close> when that is at most 200, and can exceed 200 otherwise, since
  the stride is rounded down). The result is the channel-wise average, rounded, of the
  samples of a most populous bucket of the quantization into 16-wide intervals per
  channel.
\<close>

theorem detectBackgroundColor_samples:
  "1 \<le> naturalWidth img \<Longrightarrow> 1 \<le> naturalHeight img \<Longrightarrow>
   edgeSamples canvas img =
     (let w = naturalWidth img; h = naturalHeight img;
          step = max 1 ((w + h) * 2 div min 200 ((w + h) * 2))
      in concat (map (\<lambda>k. [colorAt canvas img (int (k * step)) 0,
                             colorAt canvas img (int (k * step)) (int h - 1)])
                   [0..<(w + step - 1) div step]) @
         concat (map (\<lambda>k. [colorAt canvas img 0 (int (k * step)),
                             colorAt canvas img (int w - 1) (int (k * step))])
                   [0..<(h + step - 1) div step])) \<and>
   (\<forall>c \<in> set (edgeSamples canvas img). \<exists>x y. onEdge img x y \<and> c = colorAt canvas img x y) \<and>
   length (edgeSamples canvas img) =
     (let w = naturalWidth img; h = naturalHeight img;
          step = max 1 ((w + h) * 2 div min 200 ((w + h) * 2))
      in 2 * ((w + step - 1) div step) + 2 * ((h + step - 1) div step)) \<and>
   length (edgeSamples canvas img) \<le> 2 * (naturalWidth img + naturalHeight img) \<and>
   length (edgeSamples canvas img) \<le> 398 \<and>
   (2 * (naturalWidth img + naturalHeight img) \<le> 200 \<longrightarrow>
      length (edgeSamples canvas img) = 2 * (naturalWidth img + naturalHeight img)) \<and>
   (\<exists>k. samplesInBucket (edgeSamples canvas img) k \<noteq> [] \<and>
     (\<forall>k'. length (samplesInBucket (edgeSamples canvas img) k')
             \<le> length (samplesInBucket (edgeSamples canvas img) k)) \<and>
     detectBackgroundColor canvas img =
       Some \<lparr> rgb_r = real_of_int (Math_round
                 (sum_list (map rgb_r (samplesInBucket (edgeSamples canvas img) k)) /
                  real (length (samplesInBucket (edgeSamples canvas img) k)))),
              rgb_g = real_of_int (Math_round
                 (sum_list (map rgb_g (samplesInBucket (edgeSamples canvas img) k)) /
                  real (length (samplesInBucket (edgeSamples canvas img) k)))),
              rgb_b = real_of_int (Math_round
                 (sum_list (map rgb_b (samplesInBucket (edgeSamples canvas img) k)) /
                  real (length (samplesInBucket (edgeSamples canvas img) k)))) \<rparr>)"
proof -
  assume a: "1 \<le> naturalWidth img" "1 \<le> naturalHeight img"
  show ?thesis
    using edgeSamples_eq [OF a, of canvas] edgeSamples_on_edges [OF a, of canvas]
      edgeSamples_length [of canvas img] edgeSamples_bounds [OF a, of canvas]
      detectBackgroundColor_mode [OF edgeSamples_nonempty [OF a, of canvas]]
    by (intro conjI impI)
qed

theorem detectBackgroundColor_samples_witness:
  "1 \<le> naturalWidth \<lparr> naturalWidth = 3, naturalHeight = 2,
       pixels = [200, 0, 0, 255, 0, 200, 0, 255, 0, 0, 200, 255,
                 10, 10, 10, 255, 12, 11, 10, 255, 10, 10, 10, 255] \<rparr> \<and>
   1 \<le> naturalHeight \<lparr> naturalWidth = 3, naturalHeight = 2,
       pixels = [200, 0, 0, 255, 0, 200, 0, 255, 0, 0, 200, 255,
                 10, 10, 10, 255, 12, 11, 10, 255, 10, 10, 10, 255] \<rparr> \<and>
   2 * (3 + 2) \<le> (200 :: nat) \<and>
   max 1 ((3 + 2) * 2 div min 200 ((3 + 2) * 2)) = (1 :: nat) \<and>
   edgeSamples premultiplied \<lparr> naturalWidth = 3, naturalHeight = 2,
       pixels = [200, 0, 0, 255, 0, 200, 0, 255, 0, 0, 200, 255,
                 10, 10, 10, 255, 12, 11, 10, 255, 10, 10, 10, 255] \<rparr>
     = [\<lparr> rgb_r = 200, rgb_g = 0, rgb_b = 0 \<rparr>, \<lparr> rgb_r = 10, rgb_g = 10, rgb_b = 10 \<rparr>,
        \<lparr> rgb_r = 0, rgb_g = 200, rgb_b = 0 \<rparr>, \<lparr> rgb_r = 12, rgb_g = 11, rgb_b = 10 \<rparr>,
        \<lparr> rgb_r = 0, rgb_g = 0, rgb_b = 200 \<rparr>, \<lparr> rgb_r = 10, rgb_g = 10, rgb_b = 10 \<rparr>,
        \<lparr> rgb_r = 200, rgb_g = 0, rgb_b = 0 \<rparr>, \<lparr> rgb_r = 0, rgb_g = 0, rgb_b = 200 \<rparr>,
        \<lparr> rgb_r = 10, rgb_g = 10, rgb_b = 10 \<rparr>, \<lparr> rgb_r = 10, rgb_g = 10, rgb_b = 10 \<rparr>] \<and>
   length (edgeSamples premultiplied \<lparr> naturalWidth = 3, naturalHeight = 2,
       pixels = [200, 0, 0, 255, 0, 200, 0, 255, 0, 0, 200, 255,
                 10, 10, 10, 255, 12, 11, 10, 255, 10, 10, 10, 255] \<rparr>) = 10 \<and>
   detectBackgroundColor premultiplied \<lparr> naturalWidth = 3, naturalHeight = 2,
       pixels = [200, 0, 0, 255, 0, 200, 0, 255, 0, 0, 200, 255,
                 10, 10, 10, 255, 12, 11, 10, 255, 10, 10, 10, 255] \<rparr>
     = Some \<lparr> rgb_r = 10, rgb_g = 10, rgb_b = 10 \<rparr>"
proof -
  let ?img = "\<lparr> naturalWidth = 3, naturalHeight = 2,
       pixels = [200, 0, 0, 255, 0, 200, 0, 255, 0, 0, 200, 255,
                 10, 10, 10, 255, 12, 11, 10, 255, 10, 10, 10, 255 :: byte] \<rparr>"
  have c: "colorAt premultiplied ?img 0 0 = \<lparr> rgb_r = 200, rgb_g = 0, rgb_b = 0 \<rparr>"
    "colorAt premultiplied ?img 1 0 = \<lparr> rgb_r = 0, rgb_g = 200, rgb_b = 0 \<rparr>"
    "colorAt premultiplied ?img 2 0 = \<lparr> rgb_r = 0, rgb_g = 0, rgb_b = 200 \<rparr>"
    "colorAt premultiplied ?img 0 1 = \<lparr> rgb_r = 10, rgb_g = 10, rgb_b = 10 \<rparr>"
    "colorAt premultiplied ?img 1 1 = \<lparr> rgb_r = 12, rgb_g = 11, rgb_b = 10 \<rparr>"
    "colorAt premultiplied ?img 2 1 = \<lparr> rgb_r = 10, rgb_g = 10, rgb_b = 10 \<rparr>"
    by (simp_all add: colorAt_def getImageData_def readBack_def Let_def)
  have u: "[0..<3] = [0, 1, 2]" "[0..<2] = [0, 1]"
    by (simp_all add: upt_conv_Cons)
  have d: "detectBackgroundColor premultiplied ?img = Some \<lparr> rgb_r = 10, rgb_g = 10, rgb_b = 10 \<rparr>"
    by code_simp
  show ?thesis
    using detectBackgroundColor_samples [of ?img premultiplied] d
    by (simp add: Let_def u c)
qed

text \<open>
  C6, as stated, fails: on an image of 100 by 99 pixels the stride is
  \<open>max(1, floor(398 / 200)) = 1\<close> and 398 pixels are sampled, more than
  \<open>min(200, 2 * (100 + 99)) = 200\<close>.
\<close>

theorem detectBackgroundColor_cap_counterexample:
  "length (edgeSamples premultiplied
             \<lparr> naturalWidth = 100, naturalHeight = 99, pixels = replicate 39600 0 \<rparr>) = 398 \<and>
   \<not> (398 \<le> min 200 (2 * (100 + 99 :: nat)))"
  by (simp add: edgeSamples_length)

section \<open>Properties of the editor\<close>

lemma computeLayout_frame:
  "imageRef (computeLayout img s) = imageRef s"
  "undoStack (computeLayout img s) = undoStack s"
  "redoStack (computeLayout img s) = redoStack s"
  "selection (computeLayout img s) = selection s"
  "croppedImage (computeLayout img s) = croppedImage s"
  "processedImage (computeLayout img s) = processedImage s"
  "fillMode (computeLayout img s) = fillMode s"
  by (simp_all add: computeLayout_def Let_def split: option.split prod.split)

text \<open>
  Flip and flood fill do push: the snapshot of the working image goes onto the undo stack
  and the redo stack is emptied, and the working image becomes the result.
\<close>

lemma onClickFlip_commits:
  "imageRef s = Some img \<Longrightarrow>
   undoStack (onClickFlip ops s) = undoStack s @ [img] \<and>
   redoStack (onClickFlip ops s) = [] \<and>
   imageRef (onClickFlip ops s) = Some (flipHorizontal ops img)"
  by (simp add: onClickFlip_def pushUndo_def Let_def computeLayout_frame)

lemma fill_commits:
  assumes "fillMode s" "croppedImage s = None" "processedImage s = None" "\<not> resizeMode s"
    and "imageRef s = Some img"
    and "jsDiv (pt_x pos - offsetX (imageLayout s)) (scale (imageLayout s)) = Fin imgX"
    and "jsDiv (pt_y pos - offsetY (imageLayout s)) (scale (imageLayout s)) = Fin imgY"
    and "0 \<le> imgX" "imgX < real (naturalWidth img)" "0 \<le> imgY" "imgY < real (naturalHeight img)"
  shows "undoStack (handleMouseDown ops s pos) = undoStack s @ [img] \<and>
         redoStack (handleMouseDown ops s pos) = [] \<and>
         imageRef (handleMouseDown ops s pos) =
           Some (floodFill ops img (Fin imgX) (Fin imgY) (fillColor s) (fillTolerance s))"
  using assms by (simp add: handleMouseDown_def pushUndo_def Let_def computeLayout_frame)

lemma exampleCropPreview_state:
  "imageRef exampleCropPreview = Some exampleImage"
  "croppedImage exampleCropPreview = Some exampleCropped"
  "undoStack exampleCropPreview = []"
  "redoStack exampleCropPreview = [exampleFlipped]"
  by code_simp+

lemma exampleCropPreview_use:
  "imageRef (onClickUseAsSource exampleCropPreview) = Some exampleCropped"
  "undoStack (onClickUseAsSource exampleCropPreview) = []"
  "redoStack (onClickUseAsSource exampleCropPreview) = [exampleFlipped]"
  "imageRef (handleRedo (onClickUseAsSource exampleCropPreview)) = Some exampleFlipped"
  by code_simp+

text \<open>
  C1 fails on the code for the three commits behind "use as source". None of
  \<open>handleUseCropped\<close>, \<open>handleUseProcessed\<close> and \<open>handleUseResized\<close> calls \<open>pushUndo\<close>:
  each leaves the undo and the redo stack as they are. In the example session the working
  image is replaced by the cropped result while the undo stack stays empty and the redo
  stack keeps the flipped image, which a later redo puts in place of the cropped one.
\<close>

theorem use_as_source_skips_pushUndo:
  "undoStack (handleUseCropped s) = undoStack s \<and>
   redoStack (handleUseCropped s) = redoStack s \<and>
   undoStack (handleUseProcessed s) = undoStack s \<and>
   redoStack (handleUseProcessed s) = redoStack s \<and>
   undoStack (handleUseResized s) = undoStack s \<and>
   redoStack (handleUseResized s) = redoStack s \<and>
   imageRef exampleCropPreview = Some exampleImage \<and>
   croppedImage exampleCropPreview = Some exampleCropped \<and>
   undoStack exampleCropPreview = [] \<and>
   redoStack exampleCropPreview = [exampleFlipped] \<and>
   imageRef (onClickUseAsSource exampleCropPreview) = Some exampleCropped \<and>
   undoStack (onClickUseAsSource exampleCropPreview) = [] \<and>
   redoStack (onClickUseAsSource exampleCropPreview) = [exampleFlipped] \<and>
   imageRef (handleRedo (onClickUseAsSource exampleCropPreview)) = Some exampleFlipped"
proof -
  have "undoStack (handleUseCropped s) = undoStack s"
    "redoStack (handleUseCropped s) = redoStack s"
    by (simp_all add: handleUseCropped_def computeLayout_frame split: option.split)
  moreover have "undoStack (handleUseProcessed s) = undoStack s"
    "redoStack (handleUseProcessed s) = redoStack s"
    by (simp_all add: handleUseProcessed_def computeLayout_frame split: option.split)
  moreover have "undoStack (handleUseResized s) = undoStack s"
    "redoStack (handleUseResized s) = redoStack s"
    by (simp_all add: handleUseResized_def computeLayout_frame split: option.split)
  ultimately show ?thesis
    using exampleCropPreview_state exampleCropPreview_use by simp
qed

text \<open>
  C5 fails on the code at the boundary. \<open>hasValidSelection\<close> tests \<open>width > 5\<close> and
  \<open>height > 5\<close>: the selection of exactly 5 by 5 pixels, which \<open>handleMouseUp\<close> keeps
  (it discards below 5 only), gets no Crop button, while the 6 by 6 one does.
\<close>

theorem crop_unavailable_at_5x5:
  "selection (drag exampleOps exampleLoaded \<lparr> pt_x = 1, pt_y = 1 \<rparr> \<lparr> pt_x = 6, pt_y = 6 \<rparr>)
     = Some \<lparr> rect_x = 1, rect_y = 1, rect_width = 5, rect_height = 5 \<rparr> \<and>
   \<not> hasValidSelection
       (drag exampleOps exampleLoaded \<lparr> pt_x = 1, pt_y = 1 \<rparr> \<lparr> pt_x = 6, pt_y = 6 \<rparr>) \<and>
   \<not> cropButtonShown
       (drag exampleOps exampleLoaded \<lparr> pt_x = 1, pt_y = 1 \<rparr> \<lparr> pt_x = 6, pt_y = 6 \<rparr>) \<and>
   selection (drag exampleOps exampleLoaded \<lparr> pt_x = 1, pt_y = 1 \<rparr> \<lparr> pt_x = 7, pt_y = 7 \<rparr>)
     = Some \<lparr> rect_x = 1, rect_y = 1, rect_width = 6, rect_height = 6 \<rparr> \<and>
   cropButtonShown
       (drag exampleOps exampleLoaded \<lparr> pt_x = 1, pt_y = 1 \<rparr> \<lparr> pt_x = 7, pt_y = 7 \<rparr>)"
  by code_simp

text \<open>
  C8. In fill mode, a pointer-down whose mapped source-pixel coordinate lies outside the
  image bounds (\<open>x < 0\<close>, \<open>y < 0\<close>, \<open>x \<ge> width\<close> or \<open>y \<ge> height\<close>) is a complete no-op:
  whatever \<open>floodFill\<close> is, the state after the event is the state before it, so the
  working image is unchanged and no undo snapshot is pushed.
\<close>

theorem fill_outside_bounds_noop:
  "fillMode s \<Longrightarrow> imageRef s = Some img \<Longrightarrow>
   jsLt (jsDiv (pt_x pos - offsetX (imageLayout s)) (scale (imageLayout s))) 0 \<or>
   jsLt (jsDiv (pt_y pos - offsetY (imageLayout s)) (scale (imageLayout s))) 0 \<or>
   jsGe (jsDiv (pt_x pos - offsetX (imageLayout s)) (scale (imageLayout s)))
        (real (naturalWidth img)) \<or>
   jsGe (jsDiv (pt_y pos - offsetY (imageLayout s)) (scale (imageLayout s)))
        (real (naturalHeight img)) \<Longrightarrow>
   handleMouseDown ops s pos = s"
  by (simp add: handleMouseDown_def Let_def)

lemma exampleFill_state:
  "fillMode (handleEnterFill exampleLoaded)"
  "imageRef (handleEnterFill exampleLoaded) = Some exampleImage"
  "imageLayout (handleEnterFill exampleLoaded) = \<lparr> scale = 1, offsetX = 1, offsetY = 1 \<rparr>"
  "undoStack (handleEnterFill exampleLoaded) = []"
  by code_simp+

theorem fill_outside_bounds_noop_witness:
  "fillMode (handleEnterFill exampleLoaded) \<and>
   imageRef (handleEnterFill exampleLoaded) = Some exampleImage \<and>
   jsGe (jsDiv (19 / 2 - offsetX (imageLayout (handleEnterFill exampleLoaded)))
               (scale (imageLayout (handleEnterFill exampleLoaded))))
        (real (naturalWidth exampleImage)) \<and>
   handleMouseDown exampleOps (handleEnterFill exampleLoaded) \<lparr> pt_x = 19 / 2, pt_y = 3 \<rparr>
     = handleEnterFill exampleLoaded \<and>
   undoStack (handleMouseDown exampleOps (handleEnterFill exampleLoaded)
                \<lparr> pt_x = 19 / 2, pt_y = 3 \<rparr>) = []"
proof -
  have g: "jsGe (jsDiv (19 / 2 - offsetX (imageLayout (handleEnterFill exampleLoaded)))
               (scale (imageLayout (handleEnterFill exampleLoaded))))
        (real (naturalWidth exampleImage))"
    by (simp add: exampleFill_state jsDiv_def exampleImage_def)
  have "handleMouseDown exampleOps (handleEnterFill exampleLoaded) \<lparr> pt_x = 19 / 2, pt_y = 3 \<rparr>
          = handleEnterFill exampleLoaded"
    using fill_outside_bounds_noop [of "handleEnterFill exampleLoaded" exampleImage
        "\<lparr> pt_x = 19 / 2, pt_y = 3 \<rparr>" exampleOps]
      exampleFill_state(1,2) g by simp
  then show ?thesis using exampleFill_state g by simp
qed

end
